theory Spec2Isabelle
  imports Main
begin

section \<open>The browser, the operating system and the network as an explicit world\<close>

text \<open>
  \<^verbatim>\<open>auto_checkin.py\<close> drives a browser page through Playwright. Every call on the
  page either returns or raises, and may change the page. The model threads a world
  \<open>'w\<close> (browser, file system, network, clock) through every call; a call returns its
  value or the error it raised, the calls it issued (in order) and the new world.
  The handlers of the source are \<^verbatim>\<open>except Exception\<close> or bare \<^verbatim>\<open>except\<close> and never look at
  the exception, so one error type stands for every exception of class Exception.
  Exceptions outside that class (cancellation, keyboard interrupt) are not modelled.
  Calls of \<^verbatim>\<open>logger\<close> are left out: they write log lines and never decide anything.
\<close>

datatype error = TimeoutError | PlaywrightError | IndexError | ValueError | OSError | RequestError

type_synonym elem = nat

record payload =
  appToken :: string
  content_md :: string
  summary :: string
  contentType :: nat
  uids :: "string list"
  verifyPay :: bool

datatype call =
    Goto string
  | WaitFor string nat
  | Query string
  | QueryAll string
  | Fill string string
  | Press string string
  | Reload
  | Click elem
  | InnerText elem
  | GetAttr elem string
  | Screenshot string
  | Content
  | ReadUrl string
  | Sleep nat
  | WriteFile string
  | Post string payload
  | PwStart
  | Launch bool
  | NewContext
  | NewPage
  | BrowserClose
  | PwStop

text \<open>What \<^verbatim>\<open>requests.post(...).json().get('code')\<close> gives: the JSON decoding may raise,
  and the key may be absent.\<close>

type_synonym response = "error + int option"

record 'w env =
  goto :: "string \<Rightarrow> 'w \<Rightarrow> (error + unit) \<times> 'w"
  wait_for_selector :: "string \<Rightarrow> nat \<Rightarrow> 'w \<Rightarrow> (error + elem option) \<times> 'w"
  query_selector :: "string \<Rightarrow> 'w \<Rightarrow> (error + elem option) \<times> 'w"
  query_selector_all :: "string \<Rightarrow> 'w \<Rightarrow> (error + elem list) \<times> 'w"
  fill :: "string \<Rightarrow> string \<Rightarrow> 'w \<Rightarrow> (error + unit) \<times> 'w"
  press :: "string \<Rightarrow> string \<Rightarrow> 'w \<Rightarrow> (error + unit) \<times> 'w"
  reload :: "'w \<Rightarrow> (error + unit) \<times> 'w"
  screenshot :: "string \<Rightarrow> 'w \<Rightarrow> (error + unit) \<times> 'w"
  page_content :: "'w \<Rightarrow> (error + string) \<times> 'w"
  url :: "'w \<Rightarrow> string"
  click :: "elem \<Rightarrow> 'w \<Rightarrow> (error + unit) \<times> 'w"
  inner_text :: "elem \<Rightarrow> 'w \<Rightarrow> (error + string) \<times> 'w"
  get_attribute :: "elem \<Rightarrow> string \<Rightarrow> 'w \<Rightarrow> (error + string option) \<times> 'w"
  sleep :: "nat \<Rightarrow> 'w \<Rightarrow> 'w"
  write_file :: "string \<Rightarrow> string \<Rightarrow> 'w \<Rightarrow> (error + unit) \<times> 'w"
  b64decode :: "string \<Rightarrow> error + string"
  ocr :: "(string \<Rightarrow> error + string) option"
  post :: "string \<Rightarrow> payload \<Rightarrow> 'w \<Rightarrow> (error + response) \<times> 'w"
  now :: "'w \<Rightarrow> string"
  pw_start :: "'w \<Rightarrow> (error + unit) \<times> 'w"
  launch :: "bool \<Rightarrow> 'w \<Rightarrow> (error + unit) \<times> 'w"
  new_context :: "'w \<Rightarrow> (error + unit) \<times> 'w"
  new_page :: "'w \<Rightarrow> (error + unit) \<times> 'w"
  browser_close :: "'w \<Rightarrow> (error + unit) \<times> 'w"
  pw_stop :: "'w \<Rightarrow> (error + unit) \<times> 'w"

type_synonym ('w, 'a) io = "'w \<Rightarrow> (error + 'a) \<times> call list \<times> 'w"

subsection \<open>Sequencing, raising and catching\<close>

definition ret :: "'a \<Rightarrow> ('w, 'a) io" where
  "ret a w = (Inr a, [], w)"

definition raise :: "error \<Rightarrow> ('w, 'a) io" where
  "raise e w = (Inl e, [], w)"

text \<open>Two statements in a row inside one \<^verbatim>\<open>try\<close> block: the second runs only when the
  first did not raise.\<close>

definition seq :: "('w, 'a) io \<Rightarrow> ('a \<Rightarrow> ('w, 'b) io) \<Rightarrow> ('w, 'b) io" where
  "seq m f w =
     (case m w of
        (Inl e, evs, w1) \<Rightarrow> (Inl e, evs, w1)
      | (Inr a, evs, w1) \<Rightarrow> (case f a w1 of (r, evs2, w2) \<Rightarrow> (r, evs @ evs2, w2)))"

text \<open>\<^verbatim>\<open>try: m  except: pass\<close>\<close>

definition try_pass :: "('w, 'a) io \<Rightarrow> ('w, unit) io" where
  "try_pass m w = (case m w of (r, evs, w1) \<Rightarrow> (Inr (), evs, w1))"

text \<open>A call of the driver, recorded.\<close>

definition prim :: "call \<Rightarrow> ('w \<Rightarrow> (error + 'a) \<times> 'w) \<Rightarrow> ('w, 'a) io" where
  "prim c f w = (case f w of (r, w1) \<Rightarrow> (r, [c], w1))"

definition asleep :: "'w env \<Rightarrow> nat \<Rightarrow> ('w, unit) io" where
  "asleep pg n w = (Inr (), [Sleep n], sleep pg n w)"

definition read_url :: "'w env \<Rightarrow> ('w, string) io" where
  "read_url pg w = (Inr (url pg w), [ReadUrl (url pg w)], w)"

definition lift :: "error + 'a \<Rightarrow> ('w, 'a) io" where
  "lift r w = (r, [], w)"

text \<open>A block that cannot raise (every exception is caught inside it), used inside a
  \<^verbatim>\<open>try\<close> block.\<close>

definition total :: "('w \<Rightarrow> 'a \<times> call list \<times> 'w) \<Rightarrow> ('w, 'a) io" where
  "total m w = (case m w of (a, evs, w1) \<Rightarrow> (Inr a, evs, w1))"

subsection \<open>Strings\<close>

text \<open>Python strings are modelled by their UTF-8 bytes. The literals of the source that
  are not ASCII are spelled out byte by byte; on well-formed UTF-8, containment and
  equality of byte strings are containment and equality of the code-point strings.\<close>

definition zh_enter_username :: string where
  "zh_enter_username = [CHR 0xE8, CHR 0xAF, CHR 0xB7, CHR 0xE8, CHR 0xBE, CHR 0x93, CHR 0xE5, CHR 0x85,
     CHR 0xA5, CHR 0xE7, CHR 0x94, CHR 0xA8, CHR 0xE6, CHR 0x88, CHR 0xB7, CHR 0xE5, CHR 0x90, CHR 0x8D]"

definition zh_enter_password :: string where
  "zh_enter_password = [CHR 0xE8, CHR 0xAF, CHR 0xB7, CHR 0xE8, CHR 0xBE, CHR 0x93, CHR 0xE5, CHR 0x85,
     CHR 0xA5, CHR 0xE5, CHR 0xAF, CHR 0x86, CHR 0xE7, CHR 0xA0, CHR 0x81]"

definition zh_enter_captcha :: string where
  "zh_enter_captcha = [CHR 0xE8, CHR 0xAF, CHR 0xB7, CHR 0xE8, CHR 0xBE, CHR 0x93, CHR 0xE5, CHR 0x85,
     CHR 0xA5, CHR 0xE9, CHR 0xAA, CHR 0x8C, CHR 0xE8, CHR 0xAF, CHR 0x81, CHR 0xE7, CHR 0xA0, CHR 0x81]"

definition zh_login :: string where
  "zh_login = [CHR 0xE7, CHR 0x99, CHR 0xBB, CHR 0xE5, CHR 0xBD, CHR 0x95]"

definition zh_login_trad :: string where
  "zh_login_trad = [CHR 0xE7, CHR 0x99, CHR 0xBB, CHR 0xE9, CHR 0x8C, CHR 0x84]"

definition zh_i_know :: string where
  "zh_i_know = [CHR 0xE6, CHR 0x88, CHR 0x91, CHR 0xE7, CHR 0x9F, CHR 0xA5, CHR 0xE9, CHR 0x81, CHR 0x93,
     CHR 0xE4, CHR 0xBA, CHR 0x86]"

definition username_sel :: string where
  \<open>username_sel = ''input[type="text"][placeholder="'' @ zh_enter_username @ ''"]''\<close>

definition password_sel :: string where
  \<open>password_sel = ''input[type="password"][placeholder="'' @ zh_enter_password @ ''"]''\<close>

definition captcha_sel :: string where
  \<open>captcha_sel = ''input[type="text"][placeholder="'' @ zh_enter_captcha @ ''"]''\<close>

definition login_button_sel :: string where
  \<open>login_button_sel = ''button:has-text("'' @ zh_login @ ''"), button:has-text("'' @ zh_login_trad
     @ ''"), .login-btn, .submit-btn''\<close>

definition know_button_sel :: string where
  \<open>know_button_sel =
     ''button.van-button.van-button--default.van-button--large.van-dialog__confirm:has-text("''
     @ zh_i_know @ ''")''\<close>

definition zh_account_list :: string where
  "zh_account_list = [CHR 0xE8, CHR 0xB4, CHR 0xA6, CHR 0xE5, CHR 0x8F, CHR 0xB7, CHR 0xE5, CHR 0x88,
     CHR 0x97, CHR 0xE8, CHR 0xA1, CHR 0xA8]"

definition zh_expand :: string where
  "zh_expand = [CHR 0xE5, CHR 0xB1, CHR 0x95, CHR 0xE5, CHR 0xBC, CHR 0x80]"

definition zh_submit_checkin :: string where
  "zh_submit_checkin = [CHR 0xE6, CHR 0x8F, CHR 0x90, CHR 0xE4, CHR 0xBA, CHR 0xA4, CHR 0xE6, CHR 0x89,
     CHR 0x93, CHR 0xE5, CHR 0x8D, CHR 0xA1]"

definition zh_checkin :: string where
  "zh_checkin = [CHR 0xE6, CHR 0x89, CHR 0x93, CHR 0xE5, CHR 0x8D, CHR 0xA1]"

definition zh_submit :: string where
  "zh_submit = [CHR 0xE6, CHR 0x8F, CHR 0x90, CHR 0xE4, CHR 0xBA, CHR 0xA4]"

definition zh_success :: string where
  "zh_success = [CHR 0xE6, CHR 0x88, CHR 0x90, CHR 0xE5, CHR 0x8A, CHR 0x9F]"

definition zh_submitted :: string where
  "zh_submitted = [CHR 0xE5, CHR 0xB7, CHR 0xB2, CHR 0xE6, CHR 0x8F, CHR 0x90, CHR 0xE4, CHR 0xBA, CHR 0xA4]"

definition zh_checkin_success :: string where
  "zh_checkin_success = zh_checkin @ zh_success"

definition zh_auto :: string where
  "zh_auto = [CHR 0xE8, CHR 0x87, CHR 0xAA, CHR 0xE5, CHR 0x8A, CHR 0xA8]"

definition zh_failed :: string where
  "zh_failed = [CHR 0xE5, CHR 0xA4, CHR 0xB1, CHR 0xE8, CHR 0xB4, CHR 0xA5]"

definition zh_user :: string where
  "zh_user = [CHR 0xE7, CHR 0x94, CHR 0xA8, CHR 0xE6, CHR 0x88, CHR 0xB7]"

definition zh_check_the_log :: string where
  "zh_check_the_log = [CHR 0xEF, CHR 0xBC, CHR 0x8C, CHR 0xE8, CHR 0xAF, CHR 0xB7, CHR 0xE6, CHR 0xA3,
     CHR 0x80, CHR 0xE6, CHR 0x9F, CHR 0xA5, CHR 0xE6, CHR 0x97, CHR 0xA5, CHR 0xE5, CHR 0xBF, CHR 0x97,
     CHR 0xE3, CHR 0x80, CHR 0x82]"

definition zh_time :: string where
  "zh_time = [CHR 0xE6, CHR 0x97, CHR 0xB6, CHR 0xE9, CHR 0x97, CHR 0xB4]"

definition nav_sel :: string where
  \<open>nav_sel = ''span.nav-text:has-text("'' @ zh_account_list @ ''")''\<close>

definition expand_sel :: string where
  \<open>expand_sel = ''.expand-icon, img[alt="'' @ zh_expand @ ''"], .icon-image''\<close>

text \<open>The list \<^verbatim>\<open>selectors\<close> of \<^verbatim>\<open>do_checkin\<close> (source lines 316--324).\<close>

definition selectors :: "string list" where
  \<open>selectors =
     [''button.action-btn:has-text("'' @ zh_submit_checkin @ ''")'',
      ''button:has-text("'' @ zh_submit_checkin @ ''")'',
      ''button:has-text("'' @ zh_checkin @ ''")'',
      ''button:has-text("'' @ zh_submit @ ''")'',
      ''.action-btn'',
      ''button[class*="action"]'',
      ''button[class*="submit"]'']\<close>

definition success_indicators :: "string list" where
  \<open>success_indicators =
     [''text="'' @ zh_success @ ''"'',
      ''text="'' @ zh_submitted @ ''"'',
      ''text="'' @ zh_checkin_success @ ''"'',
      ''.success'',
      ''.toast'']\<close>

definition wxpusher_url :: string where
  "wxpusher_url = ''https://wxpusher.zjiecode.com/api/send/message''"

text \<open>\<^verbatim>\<open>s.startswith(p)\<close>, \<^verbatim>\<open>s.split(c)\<close> and \<^verbatim>\<open>p in s\<close> of Python.\<close>

definition startswith :: "string \<Rightarrow> string \<Rightarrow> bool" where
  "startswith s p = (take (length p) s = p)"

fun split_on :: "char \<Rightarrow> string \<Rightarrow> string list" where
  "split_on c [] = [[]]"
| "split_on c (x # xs) =
     (if x = c then [] # split_on c xs
      else (case split_on c xs of [] \<Rightarrow> [[x]] | p # ps \<Rightarrow> (x # p) # ps))"

fun str_in :: "string \<Rightarrow> string \<Rightarrow> bool" where
  "str_in p [] = (p = [])"
| "str_in p (c # cs) = (startswith (c # cs) p \<or> str_in p cs)"

section \<open>The class AutoCheckin\<close>

record account =
  username :: string
  password :: string
  headless :: bool
  login_url :: string

text \<open>\<^verbatim>\<open>AutoCheckin.__init__\<close>\<close>

definition init_account :: "string \<Rightarrow> string \<Rightarrow> bool \<Rightarrow> account" where
  "init_account u p h =
     \<lparr>username = u, password = p, headless = h,
      login_url = ''https://qd.dxssxdk.com/lanhu_yonghudenglu''\<rparr>"

subsection \<open>solve\_captcha\<close>

definition solve_captcha_try :: "'w env \<Rightarrow> ('w, string) io" where
  "solve_captcha_try pg =
     seq (prim (WaitFor ''div.captcha-image img'' 5000)
            (wait_for_selector pg ''div.captcha-image img'' 5000)) (\<lambda>_.
     seq (prim (Query ''div.captcha-image img'') (query_selector pg ''div.captcha-image img''))
       (\<lambda>captcha_img.
     case captcha_img of
       None \<Rightarrow> ret []
     | Some img \<Rightarrow>
         seq (prim (GetAttr img ''src'') (get_attribute pg img ''src'')) (\<lambda>src.
         case src of
           None \<Rightarrow> ret []
         | Some src \<Rightarrow>
             if src = [] \<or> \<not> startswith src ''data:image'' then ret []
             else
               (case split_on CHR '','' src of
                  _ # base64_data # _ \<Rightarrow>
                    seq (lift (b64decode pg base64_data)) (\<lambda>img_data.
                    seq (prim (WriteFile ''captcha.png'') (write_file pg ''captcha.png'' img_data))
                      (\<lambda>_.
                    case ocr pg of
                      Some classification \<Rightarrow> lift (classification img_data)
                    | None \<Rightarrow> ret []))
                | _ \<Rightarrow> raise IndexError))))"

text \<open>The whole body is inside \<^verbatim>\<open>try ... except Exception: return ""\<close>: the method
  returns a string and never raises.\<close>

definition solve_captcha :: "'w env \<Rightarrow> 'w \<Rightarrow> string \<times> call list \<times> 'w" where
  "solve_captcha pg w =
     (case solve_captcha_try pg w of
        (Inl e, evs, w1) \<Rightarrow> ([], evs, w1)
      | (Inr captcha_text, evs, w1) \<Rightarrow> (captcha_text, evs, w1))"

subsection \<open>login\_unlimited\<close>

text \<open>How one pass through the body of \<^verbatim>\<open>while True\<close> ends: a \<^verbatim>\<open>return\<close>, or on to
  the next pass (\<^verbatim>\<open>continue\<close>, or the end of the body).\<close>

datatype flow = Return bool | Continue

text \<open>The pop-up check: \<^verbatim>\<open>try: ... except: ...\<close> with a bare \<^verbatim>\<open>except\<close>.\<close>

definition dismiss_dialog :: "'w env \<Rightarrow> ('w, unit) io" where
  "dismiss_dialog pg =
     try_pass
       (seq (prim (WaitFor know_button_sel 5000) (wait_for_selector pg know_button_sel 5000))
          (\<lambda>know_button.
        case know_button of
          Some b \<Rightarrow> seq (prim (Click b) (click pg b)) (\<lambda>_. asleep pg 1)
        | None \<Rightarrow> ret ()))"

text \<open>The inner \<^verbatim>\<open>try\<close> block of the loop body, in its four stretches: filling the
  form (source lines 149--158), the CAPTCHA (161--168), submitting (170--184) and
  checking the outcome (186--212).\<close>

definition fill_form :: "'w env \<Rightarrow> account \<Rightarrow> ('w, unit) io" where
  "fill_form pg self =
     seq (prim (WaitFor username_sel 10000) (wait_for_selector pg username_sel 10000)) (\<lambda>_.
     seq (prim (Fill username_sel (username self)) (fill pg username_sel (username self))) (\<lambda>_.
     prim (Fill password_sel (password self)) (fill pg password_sel (password self))))"

definition submit_login :: "'w env \<Rightarrow> string \<Rightarrow> ('w, unit) io" where
  "submit_login pg captcha_text =
     seq (prim (Fill captcha_sel captcha_text) (fill pg captcha_sel captcha_text)) (\<lambda>_.
     seq (prim (Query login_button_sel) (query_selector pg login_button_sel)) (\<lambda>login_button.
     case login_button of
       Some b \<Rightarrow> prim (Click b) (click pg b)
     | None \<Rightarrow> prim (Press captcha_sel ''Enter'') (press pg captcha_sel ''Enter'')))"

definition check_outcome :: "'w env \<Rightarrow> account \<Rightarrow> ('w, flow) io" where
  "check_outcome pg self =
     seq (asleep pg 3) (\<lambda>_.
     seq (dismiss_dialog pg) (\<lambda>_.
     seq (read_url pg) (\<lambda>current_url.
     if current_url \<noteq> login_url self then ret (Return True)
     else seq (asleep pg 2) (\<lambda>_. ret Continue))))"

definition login_try :: "'w env \<Rightarrow> account \<Rightarrow> ('w, flow) io" where
  "login_try pg self =
     seq (fill_form pg self) (\<lambda>_.
     seq (total (solve_captcha pg)) (\<lambda>captcha_text.
     if captcha_text = [] then
       seq (prim Reload (reload pg)) (\<lambda>_.
       seq (asleep pg 2) (\<lambda>_. ret Continue))
     else
       seq (submit_login pg captcha_text) (\<lambda>_. check_outcome pg self)))"

text \<open>One pass through the loop body: the inner \<^verbatim>\<open>try\<close> with its handler
  \<^verbatim>\<open>except Exception: logger.error(...); await asyncio.sleep(2)\<close>.\<close>

definition login_iteration :: "'w env \<Rightarrow> account \<Rightarrow> 'w \<Rightarrow> flow \<times> call list \<times> 'w" where
  "login_iteration pg self w =
     (case login_try pg self w of
        (Inl e, evs, w1) \<Rightarrow> (Continue, evs @ [Sleep 2], sleep pg 2 w1)
      | (Inr fl, evs, w1) \<Rightarrow> (fl, evs, w1))"

text \<open>What is known of a run: the value returned (None while the loop is still running),
  the attempt counter, the calls issued so far and the world.\<close>

record 'w run_state =
  returned :: "bool option"
  attempt :: nat
  calls :: "call list"
  world :: 'w

text \<open>\<^verbatim>\<open>while True\<close>, cut after a number of passes. \<open>returned = None\<close> says that the loop
  has not returned within these passes.\<close>

fun login_loop :: "nat \<Rightarrow> 'w env \<Rightarrow> account \<Rightarrow> nat \<Rightarrow> call list \<Rightarrow> 'w \<Rightarrow> 'w run_state" where
  "login_loop 0 pg self att evs w = \<lparr>returned = None, attempt = att, calls = evs, world = w\<rparr>"
| "login_loop (Suc n) pg self att evs w =
     (case login_iteration pg self w of
        (Return b, evs1, w1) \<Rightarrow>
          \<lparr>returned = Some b, attempt = att + 1, calls = evs @ evs1, world = w1\<rparr>
      | (Continue, evs1, w1) \<Rightarrow> login_loop n pg self (att + 1) (evs @ evs1) w1)"

text \<open>The method: the outer \<^verbatim>\<open>try\<close> opens the login page and enters the loop with
  \<^verbatim>\<open>attempt = 0\<close>; its handler returns False.\<close>

definition login_unlimited :: "nat \<Rightarrow> 'w env \<Rightarrow> account \<Rightarrow> 'w \<Rightarrow> 'w run_state" where
  "login_unlimited n pg self w =
     (case prim (Goto (login_url self)) (goto pg (login_url self)) w of
        (Inl e, evs, w1) \<Rightarrow> \<lparr>returned = Some False, attempt = 0, calls = evs, world = w1\<rparr>
      | (Inr u, evs, w1) \<Rightarrow> login_loop n pg self 0 (evs @ [Sleep 2]) (sleep pg 2 w1))"

subsection \<open>do\_checkin\<close>

text \<open>Step 1 (source lines 245--286): the navigation entry by its text, and in the handler
  the second navigation item by position. The value is \<^verbatim>\<open>account_list_clicked\<close>.\<close>

definition nav_first :: "'w env \<Rightarrow> ('w, bool) io" where
  "nav_first pg =
     seq (prim (WaitFor nav_sel 10000) (wait_for_selector pg nav_sel 10000)) (\<lambda>account_nav.
     case account_nav of
       Some a \<Rightarrow>
         seq (prim (Click a) (click pg a)) (\<lambda>_.
         seq (asleep pg 3) (\<lambda>_.
         seq (try_pass (prim (Screenshot ''page_after_account_list.png'')
                (screenshot pg ''page_after_account_list.png''))) (\<lambda>_. ret True)))
     | None \<Rightarrow> ret False)"

definition nav_second :: "'w env \<Rightarrow> ('w, bool) io" where
  "nav_second pg =
     seq (prim (QueryAll ''.nav-item'') (query_selector_all pg ''.nav-item'')) (\<lambda>nav_items.
     if length nav_items \<ge> 2 then
       seq (prim (Click (nav_items ! 1)) (click pg (nav_items ! 1))) (\<lambda>_.
       seq (asleep pg 3) (\<lambda>_. ret True))
     else ret False)"

definition nav_step :: "'w env \<Rightarrow> 'w \<Rightarrow> bool \<times> call list \<times> 'w" where
  "nav_step pg w =
     (case nav_first pg w of
        (Inr clicked, evs, w1) \<Rightarrow> (clicked, evs, w1)
      | (Inl e, evs, w1) \<Rightarrow>
          (case nav_second pg w1 of
             (Inr clicked, evs2, w2) \<Rightarrow> (clicked, evs @ evs2, w2)
           | (Inl e2, evs2, w2) \<Rightarrow> (False, evs @ evs2, w2)))"

text \<open>Step 2 (source lines 288--309). The value is \<^verbatim>\<open>expand_clicked\<close>.\<close>

definition expand_try :: "'w env \<Rightarrow> ('w, bool) io" where
  "expand_try pg =
     seq (prim (WaitFor expand_sel 10000) (wait_for_selector pg expand_sel 10000)) (\<lambda>expand_button.
     case expand_button of
       Some b \<Rightarrow>
         seq (prim (Click b) (click pg b)) (\<lambda>_.
         seq (asleep pg 3) (\<lambda>_.
         seq (try_pass (prim (Screenshot ''page_after_expand.png'')
                (screenshot pg ''page_after_expand.png''))) (\<lambda>_. ret True)))
     | None \<Rightarrow> ret False)"

definition expand_step :: "'w env \<Rightarrow> 'w \<Rightarrow> bool \<times> call list \<times> 'w" where
  "expand_step pg w =
     (case expand_try pg w of
        (Inr clicked, evs, w1) \<Rightarrow> (clicked, evs, w1)
      | (Inl e, evs, w1) \<Rightarrow> (False, evs, w1))"

text \<open>Step 3, the loop over the selectors (source lines 326--334). The third argument is
  the variable \<^verbatim>\<open>submit_button\<close>. When \<^verbatim>\<open>wait_for_selector\<close> raises, the assignment does not
  happen and the variable keeps its value; when \<^verbatim>\<open>inner_text\<close> raises, the variable is
  already assigned and the bare \<^verbatim>\<open>except: continue\<close> goes on to the next selector.\<close>

fun locate_loop :: "'w env \<Rightarrow> string list \<Rightarrow> elem option \<Rightarrow> 'w \<Rightarrow> elem option \<times> call list \<times> 'w" where
  "locate_loop pg [] submit_button w = (submit_button, [], w)"
| "locate_loop pg (selector # rest) submit_button w =
     (case prim (WaitFor selector 3000) (wait_for_selector pg selector 3000) w of
        (Inl e, evs, w1) \<Rightarrow>
          (case locate_loop pg rest submit_button w1 of (r, evs2, w2) \<Rightarrow> (r, evs @ evs2, w2))
      | (Inr None, evs, w1) \<Rightarrow>
          (case locate_loop pg rest None w1 of (r, evs2, w2) \<Rightarrow> (r, evs @ evs2, w2))
      | (Inr (Some b), evs, w1) \<Rightarrow>
          (case prim (InnerText b) (inner_text pg b) w1 of
             (Inl e, evs1, w2) \<Rightarrow>
               (case locate_loop pg rest (Some b) w2 of (r, evs2, w3) \<Rightarrow> (r, evs @ evs1 @ evs2, w3))
           | (Inr text, evs1, w2) \<Rightarrow> (Some b, evs @ evs1, w2)))"

text \<open>The scan of all buttons (source lines 343--354): the body of the inner \<^verbatim>\<open>try\<close> reads
  the text and the class; any exception goes on to the next button.\<close>

fun scan_buttons :: "'w env \<Rightarrow> elem list \<Rightarrow> 'w \<Rightarrow> elem option \<times> call list \<times> 'w" where
  "scan_buttons pg [] w = (None, [], w)"
| "scan_buttons pg (btn # rest) w =
     (case seq (prim (InnerText btn) (inner_text pg btn)) (\<lambda>text.
           seq (prim (GetAttr btn ''class'') (get_attribute pg btn ''class'')) (\<lambda>classes.
           ret (str_in zh_submit_checkin text))) w of
        (Inr True, evs, w1) \<Rightarrow> (Some btn, evs, w1)
      | (_, evs, w1) \<Rightarrow>
          (case scan_buttons pg rest w1 of (r, evs2, w2) \<Rightarrow> (r, evs @ evs2, w2)))"

text \<open>What the scan asks of a button, given what reading its text and its class gave:
  both reads returned and \<^verbatim>\<open>'...' in text\<close> holds.\<close>

definition scan_accepts :: "error + string \<Rightarrow> error + string option \<Rightarrow> bool" where
  "scan_accepts t c =
     (case t of
        Inl e \<Rightarrow> False
      | Inr text \<Rightarrow> (case c of Inl e \<Rightarrow> False | Inr classes \<Rightarrow> str_in zh_submit_checkin text))"

text \<open>Step 3 as a whole (source lines 311--356).\<close>

definition find_submit :: "'w env \<Rightarrow> 'w \<Rightarrow> elem option \<times> call list \<times> 'w" where
  "find_submit pg w =
     (case locate_loop pg selectors None w of
        (Some b, evs, w1) \<Rightarrow> (Some b, evs, w1)
      | (None, evs, w1) \<Rightarrow>
          (case prim (QueryAll ''button'') (query_selector_all pg ''button'') w1 of
             (Inl e, evs1, w2) \<Rightarrow> (None, evs @ evs1, w2)
           | (Inr all_buttons, evs1, w2) \<Rightarrow>
               (case scan_buttons pg all_buttons w2 of
                  (r, evs2, w3) \<Rightarrow> (r, evs @ evs1 @ evs2, w3))))"

text \<open>The look for a success message (source lines 380--400).\<close>

fun check_indicators :: "'w env \<Rightarrow> string list \<Rightarrow> 'w \<Rightarrow> unit \<times> call list \<times> 'w" where
  "check_indicators pg [] w = ((), [], w)"
| "check_indicators pg (indicator # rest) w =
     (case seq (prim (WaitFor indicator 2000) (wait_for_selector pg indicator 2000)) (\<lambda>element.
           case element of
             Some el \<Rightarrow> seq (prim (InnerText el) (inner_text pg el)) (\<lambda>text. ret True)
           | None \<Rightarrow> ret False) w of
        (Inr True, evs, w1) \<Rightarrow> ((), evs, w1)
      | (_, evs, w1) \<Rightarrow>
          (case check_indicators pg rest w1 of (r, evs2, w2) \<Rightarrow> (r, evs @ evs2, w2)))"

text \<open>Step 4 (source lines 358--422), after a submit control was found, and without one.\<close>

definition click_submit :: "'w env \<Rightarrow> elem \<Rightarrow> ('w, bool) io" where
  "click_submit pg submit_button =
     seq (try_pass (prim (Screenshot ''page_before_submit.png'')
            (screenshot pg ''page_before_submit.png''))) (\<lambda>_.
     seq (prim (Click submit_button) (click pg submit_button)) (\<lambda>_.
     seq (asleep pg 3) (\<lambda>_.
     seq (try_pass (prim (Screenshot ''page_after_submit.png'')
            (screenshot pg ''page_after_submit.png''))) (\<lambda>_.
     seq (total (check_indicators pg success_indicators)) (\<lambda>_. ret True)))))"

definition no_submit :: "'w env \<Rightarrow> ('w, bool) io" where
  "no_submit pg =
     seq (try_pass
            (seq (prim (Screenshot ''page_no_submit_button.png'')
                    (screenshot pg ''page_no_submit_button.png'')) (\<lambda>_.
             seq (prim Content (page_content pg)) (\<lambda>html_content.
             prim (WriteFile ''page_content.html'') (write_file pg ''page_content.html'' html_content)))))
       (\<lambda>_. ret False)"

text \<open>The outer \<^verbatim>\<open>try\<close> block of the method, and the method with the handler of that block.\<close>

definition do_checkin_try :: "'w env \<Rightarrow> ('w, bool) io" where
  "do_checkin_try pg =
     seq (asleep pg 3) (\<lambda>_.
     seq (try_pass (prim (Screenshot ''page_after_login.png'')
            (screenshot pg ''page_after_login.png''))) (\<lambda>_.
     seq (read_url pg) (\<lambda>_.
     seq (total (nav_step pg)) (\<lambda>account_list_clicked.
     seq (total (expand_step pg)) (\<lambda>expand_clicked.
     seq (total (find_submit pg)) (\<lambda>submit_button.
     case submit_button of
       Some b \<Rightarrow> click_submit pg b
     | None \<Rightarrow> no_submit pg))))))"

definition do_checkin :: "'w env \<Rightarrow> 'w \<Rightarrow> bool \<times> call list \<times> 'w" where
  "do_checkin pg w =
     (case do_checkin_try pg w of
        (Inr ok, evs, w1) \<Rightarrow> (ok, evs, w1)
      | (Inl e, evs, w1) \<Rightarrow>
          (case try_pass (prim (Screenshot ''page_error.png'') (screenshot pg ''page_error.png'')) w1 of
             (r, evs2, w2) \<Rightarrow> (False, evs @ evs2, w2)))"

text \<open>The world in which step 3 starts: after the first sleep and screenshot and after
  steps 1 and 2, whatever they did.\<close>

definition world_at_step3 :: "'w env \<Rightarrow> 'w \<Rightarrow> 'w" where
  "world_at_step3 pg w =
     (let w1 = snd (snd (try_pass (prim (Screenshot ''page_after_login.png'')
                 (screenshot pg ''page_after_login.png'')) (sleep pg 3 w)));
          w2 = snd (snd (nav_step pg w1))
      in snd (snd (expand_step pg w2)))"

subsection \<open>run\<close>

text \<open>Starting the browser (source lines 448--463). The first component says whether all
  four calls returned; the triple says which of \<^verbatim>\<open>playwright\<close>, \<^verbatim>\<open>self.browser\<close> and
  \<^verbatim>\<open>self.page\<close> were assigned.\<close>

definition startup :: "'w env \<Rightarrow> account \<Rightarrow> 'w \<Rightarrow> bool \<times> (bool \<times> bool \<times> bool) \<times> call list \<times> 'w" where
  "startup pg self w =
     (case prim PwStart (pw_start pg) w of
        (Inl e, evs, w1) \<Rightarrow> (False, (False, False, False), evs, w1)
      | (Inr u, evs, w1) \<Rightarrow>
     (case prim (Launch (headless self)) (launch pg (headless self)) w1 of
        (Inl e, evs2, w2) \<Rightarrow> (False, (True, False, False), evs @ evs2, w2)
      | (Inr u, evs2, w2) \<Rightarrow>
     (case prim NewContext (new_context pg) w2 of
        (Inl e, evs3, w3) \<Rightarrow> (False, (True, True, False), evs @ evs2 @ evs3, w3)
      | (Inr u, evs3, w3) \<Rightarrow>
     (case prim NewPage (new_page pg) w3 of
        (Inl e, evs4, w4) \<Rightarrow> (False, (True, True, False), evs @ evs2 @ evs3 @ evs4, w4)
      | (Inr u, evs4, w4) \<Rightarrow> (True, (True, True, True), evs @ evs2 @ evs3 @ evs4, w4)))))"

text \<open>The \<^verbatim>\<open>finally\<close> block (source lines 484--495).\<close>

definition shutdown :: "'w env \<Rightarrow> bool \<times> bool \<times> bool \<Rightarrow> 'w \<Rightarrow> call list \<times> 'w" where
  "shutdown pg h w =
     (case h of (playwright, browser, page) \<Rightarrow>
        (case try_pass
                (seq (if page then asleep pg 2 else ret ()) (\<lambda>_.
                 seq (if browser then prim BrowserClose (browser_close pg) else ret ()) (\<lambda>_.
                 if playwright then prim PwStop (pw_stop pg) else ret ()))) w of
           (r, evs, w1) \<Rightarrow> (evs, w1)))"

text \<open>The method. The first component is None while the login loop has not returned
  within the given number of passes.\<close>

definition run :: "nat \<Rightarrow> 'w env \<Rightarrow> account \<Rightarrow> 'w \<Rightarrow> bool option \<times> call list \<times> 'w" where
  "run n pg self w =
     (case startup pg self w of
        (False, h, evs, w1) \<Rightarrow>
          (case shutdown pg h w1 of (evs2, w2) \<Rightarrow> (Some False, evs @ evs2, w2))
      | (True, h, evs, w1) \<Rightarrow>
          (let r = login_unlimited n pg self w1 in
           case returned r of
             None \<Rightarrow> (None, evs @ calls r, world r)
           | Some False \<Rightarrow>
               (case shutdown pg h (world r) of
                  (evs2, w2) \<Rightarrow> (Some False, evs @ calls r @ evs2, w2))
           | Some True \<Rightarrow>
               (case do_checkin pg (world r) of
                  (ok, evs1, w2) \<Rightarrow>
                    (case shutdown pg h w2 of
                       (evs2, w3) \<Rightarrow> (Some ok, evs @ calls r @ evs1 @ evs2, w3)))))"

section \<open>send\_notification and main\<close>

definition send_notification ::
    "'w env \<Rightarrow> string \<Rightarrow> string \<Rightarrow> string \<Rightarrow> string \<Rightarrow> 'w \<Rightarrow> call list \<times> 'w" where
  "send_notification pg app_token uid title message w =
     (if app_token = [] \<or> uid = [] then ([], w)
      else
        (let data = \<lparr>appToken = app_token,
                     content_md = ''# '' @ title @ [CHR 0x0A, CHR 0x0A] @ message,
                     summary = title, contentType = 3, uids = [uid], verifyPay = False\<rparr>
         in case try_pass (seq (prim (Post wxpusher_url data) (post pg wxpusher_url data))
                             (\<lambda>response. lift response)) w of
              (r, evs, w1) \<Rightarrow> (evs, w1)))"

text \<open>\<^verbatim>\<open>os.getenv(key, default)\<close>\<close>

definition getenv :: "(string \<rightharpoonup> string) \<Rightarrow> string \<Rightarrow> string \<Rightarrow> string" where
  "getenv environ k d = (case environ k of Some v \<Rightarrow> v | None \<Rightarrow> d)"

text \<open>Where the credentials come from (source lines 542--557): None is the branch that
  logs the usage message and returns.\<close>

definition credentials :: "(string \<rightharpoonup> string) \<Rightarrow> string list \<Rightarrow> (string \<times> string) option" where
  "credentials environ argv =
     (let username = getenv environ ''CHECKIN_USERNAME'' [];
          password = getenv environ ''CHECKIN_PASSWORD'' []
      in if username = [] \<or> password = [] then
           (if length argv \<ge> 3 then Some (argv ! 1, argv ! 2) else None)
         else Some (username, password))"

text \<open>The program: the first component is the exit status of the process, None while the
  login loop has not returned. \<^verbatim>\<open>main\<close> ending by \<^verbatim>\<open>return\<close> or by reaching its end lets
  \<^verbatim>\<open>asyncio.run\<close> return and the interpreter exit with status 0; \<^verbatim>\<open>sys.exit(1)\<close> gives
  status 1.\<close>

definition main :: "nat \<Rightarrow> 'w env \<Rightarrow> (string \<rightharpoonup> string) \<Rightarrow> string list \<Rightarrow> 'w \<Rightarrow> int option \<times> call list \<times> 'w" where
  "main n pg environ argv w =
     (let wxpusher_app_token = getenv environ ''WXPUSHER_APP_TOKEN'' [];
          wxpusher_uid = getenv environ ''WXPUSHER_UID'' []
      in case credentials environ argv of
           None \<Rightarrow> (Some 0, [], w)
         | Some (uname, pword) \<Rightarrow>
             (let is_github_actions = (environ ''GITHUB_ACTIONS'' = Some ''true'');
                  checkin = init_account uname pword is_github_actions
              in case run n pg checkin w of
                   (None, evs, w1) \<Rightarrow> (None, evs, w1)
                 | (Some True, evs, w1) \<Rightarrow>
                     (case send_notification pg wxpusher_app_token wxpusher_uid
                             (zh_auto @ zh_checkin_success)
                             (zh_user @ '' '' @ uname @ '' '' @ zh_checkin_success
                                @ [CHR 0x0A, CHR 0x0A] @ zh_time @ '': '' @ now pg w1) w1 of
                        (evs2, w2) \<Rightarrow> (Some 0, evs @ evs2, w2))
                 | (Some False, evs, w1) \<Rightarrow>
                     (case send_notification pg wxpusher_app_token wxpusher_uid
                             (zh_auto @ zh_checkin @ zh_failed)
                             (zh_user @ '' '' @ uname @ '' '' @ zh_checkin @ zh_failed
                                @ zh_check_the_log @ [CHR 0x0A, CHR 0x0A] @ zh_time @ '': '' @ now pg w1) w1 of
                        (evs2, w2) \<Rightarrow> (Some 1, evs @ evs2, w2))))"

section \<open>Two concrete worlds\<close>

text \<open>A world in which every call raises, and one in which every call succeeds: the
  world is the number of clicks and key presses so far, the page shows the login address
  until the first of them and the dashboard afterwards, the CAPTCHA image is a data URI
  and the recogniser reads \<^verbatim>\<open>AB12\<close>. Buttons have inner text \<open>btn_text\<close>.\<close>

definition offline :: "nat env" where
  "offline =
     \<lparr>goto = (\<lambda>u w. (Inl TimeoutError, w)),
      wait_for_selector = (\<lambda>s t w. (Inl TimeoutError, w)),
      query_selector = (\<lambda>s w. (Inl PlaywrightError, w)),
      query_selector_all = (\<lambda>s w. (Inl PlaywrightError, w)),
      fill = (\<lambda>s t w. (Inl TimeoutError, w)),
      press = (\<lambda>s k w. (Inl TimeoutError, w)),
      reload = (\<lambda>w. (Inl TimeoutError, w)),
      screenshot = (\<lambda>p w. (Inl PlaywrightError, w)),
      page_content = (\<lambda>w. (Inl PlaywrightError, w)),
      url = (\<lambda>w. ''about:blank''),
      click = (\<lambda>e w. (Inl TimeoutError, w)),
      inner_text = (\<lambda>e w. (Inl PlaywrightError, w)),
      get_attribute = (\<lambda>e a w. (Inl PlaywrightError, w)),
      sleep = (\<lambda>n w. w),
      write_file = (\<lambda>p d w. (Inl OSError, w)),
      b64decode = (\<lambda>d. Inl ValueError),
      ocr = None,
      post = (\<lambda>u d w. (Inl RequestError, w)),
      now = (\<lambda>w. ''2026-01-01 00:00:00''),
      pw_start = (\<lambda>w. (Inl PlaywrightError, w)),
      launch = (\<lambda>h w. (Inl PlaywrightError, w)),
      new_context = (\<lambda>w. (Inl PlaywrightError, w)),
      new_page = (\<lambda>w. (Inl PlaywrightError, w)),
      browser_close = (\<lambda>w. (Inl PlaywrightError, w)),
      pw_stop = (\<lambda>w. (Inl PlaywrightError, w))\<rparr>"

definition online :: "string \<Rightarrow> nat env" where
  "online btn_text =
     \<lparr>goto = (\<lambda>u w. (Inr (), w)),
      wait_for_selector = (\<lambda>s t w. (Inr (Some 0), w)),
      query_selector = (\<lambda>s w. (Inr (Some 0), w)),
      query_selector_all = (\<lambda>s w. (Inr [0, 1], w)),
      fill = (\<lambda>s t w. (Inr (), w)),
      press = (\<lambda>s k w. (Inr (), Suc w)),
      reload = (\<lambda>w. (Inr (), w)),
      screenshot = (\<lambda>p w. (Inr (), w)),
      page_content = (\<lambda>w. (Inr ''<html></html>'', w)),
      url = (\<lambda>w. if w = 0 then ''https://qd.dxssxdk.com/lanhu_yonghudenglu''
                    else ''https://qd.dxssxdk.com/home''),
      click = (\<lambda>e w. (Inr (), Suc w)),
      inner_text = (\<lambda>e w. (Inr btn_text, w)),
      get_attribute = (\<lambda>e a w. (Inr (Some ''data:image/png;base64,QUIxMg==''), w)),
      sleep = (\<lambda>n w. w),
      write_file = (\<lambda>p d w. (Inr (), w)),
      b64decode = (\<lambda>d. Inr ''PNG''),
      ocr = Some (\<lambda>img. Inr ''AB12''),
      post = (\<lambda>u d w. (Inr (Inr (Some 1000)), w)),
      now = (\<lambda>w. ''2026-01-01 00:00:00''),
      pw_start = (\<lambda>w. (Inr (), w)),
      launch = (\<lambda>h w. (Inr (), w)),
      new_context = (\<lambda>w. (Inr (), w)),
      new_page = (\<lambda>w. (Inr (), w)),
      browser_close = (\<lambda>w. (Inr (), w)),
      pw_stop = (\<lambda>w. (Inr (), w))\<rparr>"

text \<open>The calls issued by a block.\<close>

abbreviation issued :: "'a \<times> call list \<times> 'w \<Rightarrow> call list" where
  "issued r \<equiv> fst (snd r)"

section \<open>The body of the login loop\<close>

lemmas io_defs = ret_def raise_def seq_def try_pass_def prim_def asleep_def read_url_def lift_def total_def

lemma sel_distinct: "username_sel \<noteq> captcha_sel" "password_sel \<noteq> captcha_sel"
  by (simp_all add: username_sel_def password_sel_def captcha_sel_def zh_enter_username_def
      zh_enter_password_def zh_enter_captcha_def)

lemma dismiss_dialog_ok: "fst (dismiss_dialog pg w) = Inr ()"
  by (simp add: dismiss_dialog_def try_pass_def split: prod.splits)

lemma fill_form_calls:
  "c \<in> set (issued (fill_form pg self w)) \<Longrightarrow>
     c = WaitFor username_sel 10000 \<or> c = Fill username_sel (username self)
     \<or> c = Fill password_sel (password self)"
  by (auto simp: fill_form_def seq_def prim_def split: prod.splits sum.splits)

lemma solve_captcha_calls:
  "c \<in> set (issued (solve_captcha pg w)) \<Longrightarrow>
     (\<exists>s n. c = WaitFor s n) \<or> (\<exists>s. c = Query s) \<or> (\<exists>e a. c = GetAttr e a) \<or> (\<exists>p. c = WriteFile p)"
  by (auto simp: solve_captcha_def solve_captcha_try_def io_defs
      split: prod.splits sum.splits option.splits list.splits if_splits)

lemma submit_login_calls:
  "c \<in> set (issued (submit_login pg t w)) \<Longrightarrow>
     c = Fill captcha_sel t \<or> c = Query login_button_sel \<or> (\<exists>b. c = Click b)
     \<or> c = Press captcha_sel ''Enter''"
  by (auto simp: submit_login_def seq_def prim_def split: prod.splits sum.splits option.splits)

lemma dismiss_dialog_calls:
  "c \<in> set (issued (dismiss_dialog pg w)) \<Longrightarrow>
     c = WaitFor know_button_sel 5000 \<or> (\<exists>b. c = Click b) \<or> c = Sleep 1"
  by (auto simp: dismiss_dialog_def io_defs split: prod.splits sum.splits option.splits)

lemma check_outcome_unfold:
  "check_outcome pg self w =
     (case dismiss_dialog pg (sleep pg 3 w) of
        (d, e3, w3) \<Rightarrow>
          if url pg w3 \<noteq> login_url self then
            (Inr (Return True), Sleep 3 # e3 @ [ReadUrl (url pg w3)], w3)
          else (Inr Continue, Sleep 3 # e3 @ [ReadUrl (url pg w3), Sleep 2], sleep pg 2 w3))"
proof -
  obtain d e3 w3 where dd: "dismiss_dialog pg (sleep pg 3 w) = (d, e3, w3)"
    by (metis prod_cases3)
  with dismiss_dialog_ok [of pg "sleep pg 3 w"] have "d = Inr ()" by simp
  with dd show ?thesis
    by (simp add: check_outcome_def seq_def asleep_def read_url_def ret_def)
qed

lemma reload_then_sleep:
  "seq (prim Reload (reload pg)) (\<lambda>_. seq (asleep pg 2) (\<lambda>_. ret Continue)) w = (r, evs, w') \<Longrightarrow>
     evs @ (case r of Inl e \<Rightarrow> [Sleep 2] | Inr fl \<Rightarrow> []) = [Reload, Sleep 2]
     \<and> (case r of Inl e \<Rightarrow> sleep pg 2 w' | Inr fl \<Rightarrow> w') = sleep pg 2 (snd (reload pg w))
     \<and> (case r of Inl e \<Rightarrow> True | Inr fl \<Rightarrow> fl = Continue)"
  by (auto simp: seq_def prim_def asleep_def ret_def split: prod.splits sum.splits)

lemma login_iteration_unfold:
  "login_iteration pg self w =
     (case fill_form pg self w of
        (Inl e, e0, w0) \<Rightarrow> (Continue, e0 @ [Sleep 2], sleep pg 2 w0)
      | (Inr u, e0, w0) \<Rightarrow>
          (case solve_captcha pg w0 of
             (t, e1, w1) \<Rightarrow>
               if t = [] then
                 (Continue, e0 @ e1 @ [Reload, Sleep 2], sleep pg 2 (snd (reload pg w1)))
               else
                 (case submit_login pg t w1 of
                    (Inl e, e2, w2) \<Rightarrow> (Continue, e0 @ e1 @ e2 @ [Sleep 2], sleep pg 2 w2)
                  | (Inr u2, e2, w2) \<Rightarrow>
                      (case dismiss_dialog pg (sleep pg 3 w2) of
                         (d, e3, w3) \<Rightarrow>
                           if url pg w3 \<noteq> login_url self then
                             (Return True, e0 @ e1 @ e2 @ Sleep 3 # e3 @ [ReadUrl (url pg w3)], w3)
                           else
                             (Continue, e0 @ e1 @ e2 @ Sleep 3 # e3 @ [ReadUrl (url pg w3), Sleep 2],
                              sleep pg 2 w3)))))"
proof -
  obtain r0 e0 w0 where ff: "fill_form pg self w = (r0, e0, w0)" by (metis prod_cases3)
  show ?thesis
  proof (cases r0)
    case (Inl e)
    with ff show ?thesis by (simp add: login_iteration_def login_try_def seq_def)
  next
    case (Inr u)
    obtain t e1 w1 where sc: "solve_captcha pg w0 = (t, e1, w1)" by (metis prod_cases3)
    show ?thesis
    proof (cases "t = []")
      case True
      obtain r evs w' where rl:
        "seq (prim Reload (reload pg)) (\<lambda>_. seq (asleep pg 2) (\<lambda>_. ret Continue)) w1 = (r, evs, w')"
        by (metis prod_cases3)
      from reload_then_sleep [OF rl] rl ff Inr sc True show ?thesis
        by (cases r) (auto simp: login_iteration_def login_try_def seq_def [of "fill_form pg self"]
            seq_def [of "total (solve_captcha pg)"] total_def)
    next
      case False
      obtain r2 e2 w2 where sl: "submit_login pg t w1 = (r2, e2, w2)" by (metis prod_cases3)
      show ?thesis
      proof (cases r2)
        case (Inl e)
        with ff Inr sc False sl show ?thesis
          by (simp add: login_iteration_def login_try_def seq_def total_def)
      next
        case r2: (Inr u2)
        obtain d e3 w3 where dd: "dismiss_dialog pg (sleep pg 3 w2) = (d, e3, w3)"
          by (metis prod_cases3)
        from ff Inr sc False sl r2 dd show ?thesis
          by (simp add: login_iteration_def login_try_def seq_def total_def check_outcome_unfold)
      qed
    qed
  qed
qed

lemma login_iteration_no_failure: "fst (login_iteration pg self w) \<noteq> Return False"
  by (simp add: login_iteration_unfold split: prod.splits sum.splits)

lemma login_iteration_calls:
  assumes "c \<in> set (issued (login_iteration pg self w))"
  shows "c = WaitFor username_sel 10000 \<or> c = Fill username_sel (username self)
     \<or> c = Fill password_sel (password self)
     \<or> (\<exists>s n. c = WaitFor s n) \<or> (\<exists>s. c = Query s) \<or> (\<exists>e a. c = GetAttr e a)
     \<or> (\<exists>p. c = WriteFile p) \<or> (\<exists>t. t \<noteq> [] \<and> c = Fill captcha_sel t)
     \<or> (\<exists>b. c = Click b) \<or> c = Press captcha_sel ''Enter'' \<or> (\<exists>n. c = Sleep n)
     \<or> c = Reload \<or> (\<exists>u. c = ReadUrl u)"
proof -
  obtain r0 e0 w0 where ff: "fill_form pg self w = (r0, e0, w0)" by (metis prod_cases3)
  obtain t e1 w1 where sc: "solve_captcha pg w0 = (t, e1, w1)" by (metis prod_cases3)
  obtain r2 e2 w2 where sl: "submit_login pg t w1 = (r2, e2, w2)" by (metis prod_cases3)
  obtain d e3 w3 where dd: "dismiss_dialog pg (sleep pg 3 w2) = (d, e3, w3)" by (metis prod_cases3)
  have "c \<in> set e0 \<or> c \<in> set e1 \<or> (t \<noteq> [] \<and> c \<in> set e2) \<or> c \<in> set e3 \<or> (\<exists>n. c = Sleep n)
      \<or> c = Reload \<or> (\<exists>u. c = ReadUrl u)"
    using assms ff sc sl dd
    by (auto simp: login_iteration_unfold split: sum.splits if_splits)
  moreover have "c \<in> set e0 \<Longrightarrow> ?thesis" using fill_form_calls [of c pg self w] ff by auto
  moreover have "c \<in> set e1 \<Longrightarrow> ?thesis" using solve_captcha_calls [of c pg w0] sc by auto
  moreover have "t \<noteq> [] \<and> c \<in> set e2 \<Longrightarrow> ?thesis" using submit_login_calls [of c pg t w1] sl by auto
  moreover have "c \<in> set e3 \<Longrightarrow> ?thesis" using dismiss_dialog_calls [of c pg "sleep pg 3 w2"] dd by auto
  ultimately show ?thesis by blast
qed

lemma login_iteration_no_blank_captcha:
  "Fill captcha_sel [] \<notin> set (issued (login_iteration pg self w))"
  using login_iteration_calls [of "Fill captcha_sel []" pg self w] sel_distinct by auto

lemma login_iteration_success_iff:
  "fst (login_iteration pg self w) = Return True \<longleftrightarrow>
     (\<exists>u. ReadUrl u \<in> set (issued (login_iteration pg self w)) \<and> u \<noteq> login_url self)"
proof -
  obtain r0 e0 w0 where ff: "fill_form pg self w = (r0, e0, w0)" by (metis prod_cases3)
  obtain t e1 w1 where sc: "solve_captcha pg w0 = (t, e1, w1)" by (metis prod_cases3)
  obtain r2 e2 w2 where sl: "submit_login pg t w1 = (r2, e2, w2)" by (metis prod_cases3)
  obtain d e3 w3 where dd: "dismiss_dialog pg (sleep pg 3 w2) = (d, e3, w3)" by (metis prod_cases3)
  have n0: "\<And>u. ReadUrl u \<notin> set e0" using fill_form_calls [of _ pg self w] ff by auto
  have n1: "\<And>u. ReadUrl u \<notin> set e1" using solve_captcha_calls [of _ pg w0] sc by auto
  have n2: "\<And>u. ReadUrl u \<notin> set e2" using submit_login_calls [of _ pg t w1] sl by auto
  have n3: "\<And>u. ReadUrl u \<notin> set e3" using dismiss_dialog_calls [of _ pg "sleep pg 3 w2"] dd by auto
  show ?thesis
    using ff sc sl dd n0 n1 n2 n3
    by (auto simp: login_iteration_unfold split: sum.splits if_splits)
qed

lemma login_iteration_same_address:
  "ReadUrl (login_url self) \<in> set (issued (login_iteration pg self w)) \<Longrightarrow>
     fst (login_iteration pg self w) = Continue
     \<and> (\<exists>pre. issued (login_iteration pg self w) = pre @ [ReadUrl (login_url self), Sleep 2])"
proof -
  assume a: "ReadUrl (login_url self) \<in> set (issued (login_iteration pg self w))"
  obtain r0 e0 w0 where ff: "fill_form pg self w = (r0, e0, w0)" by (metis prod_cases3)
  obtain t e1 w1 where sc: "solve_captcha pg w0 = (t, e1, w1)" by (metis prod_cases3)
  obtain r2 e2 w2 where sl: "submit_login pg t w1 = (r2, e2, w2)" by (metis prod_cases3)
  obtain d e3 w3 where dd: "dismiss_dialog pg (sleep pg 3 w2) = (d, e3, w3)" by (metis prod_cases3)
  have n0: "\<And>u. ReadUrl u \<notin> set e0" using fill_form_calls [of _ pg self w] ff by auto
  have n1: "\<And>u. ReadUrl u \<notin> set e1" using solve_captcha_calls [of _ pg w0] sc by auto
  have n2: "\<And>u. ReadUrl u \<notin> set e2" using submit_login_calls [of _ pg t w1] sl by auto
  have n3: "\<And>u. ReadUrl u \<notin> set e3" using dismiss_dialog_calls [of _ pg "sleep pg 3 w2"] dd by auto
  show ?thesis
    using a ff sc sl dd n0 n1 n2 n3
    by (auto simp: login_iteration_unfold split: sum.splits if_splits
        intro: exI [of _ "e0 @ e1 @ e2 @ Sleep 3 # e3"])
qed

lemma login_iteration_settle:
  "ReadUrl u \<in> set (issued (login_iteration pg self w)) \<Longrightarrow>
     \<exists>pre post. issued (login_iteration pg self w) = pre @ Sleep 3 # post \<and> ReadUrl u \<in> set post
        \<and> ((\<exists>b. Click b \<in> set pre) \<or> Press captcha_sel ''Enter'' \<in> set pre)"
proof -
  assume a: "ReadUrl u \<in> set (issued (login_iteration pg self w))"
  obtain r0 e0 w0 where ff: "fill_form pg self w = (r0, e0, w0)" by (metis prod_cases3)
  obtain t e1 w1 where sc: "solve_captcha pg w0 = (t, e1, w1)" by (metis prod_cases3)
  obtain r2 e2 w2 where sl: "submit_login pg t w1 = (r2, e2, w2)" by (metis prod_cases3)
  obtain d e3 w3 where dd: "dismiss_dialog pg (sleep pg 3 w2) = (d, e3, w3)" by (metis prod_cases3)
  have n0: "\<And>u. ReadUrl u \<notin> set e0" using fill_form_calls [of _ pg self w] ff by auto
  have n1: "\<And>u. ReadUrl u \<notin> set e1" using solve_captcha_calls [of _ pg w0] sc by auto
  have n2: "\<And>u. ReadUrl u \<notin> set e2" using submit_login_calls [of _ pg t w1] sl by auto
  have n3: "\<And>u. ReadUrl u \<notin> set e3" using dismiss_dialog_calls [of _ pg "sleep pg 3 w2"] dd by auto
  have f2: "r2 = Inr () \<Longrightarrow> (\<exists>b. Click b \<in> set e2) \<or> Press captcha_sel ''Enter'' \<in> set e2"
    using sl by (auto simp: submit_login_def seq_def prim_def split: prod.splits sum.splits option.splits)
  have shape: "r0 = Inr () \<and> t \<noteq> [] \<and> r2 = Inr ()
      \<and> issued (login_iteration pg self w) = (e0 @ e1 @ e2) @ Sleep 3 # (e3 @ ReadUrl (url pg w3) #
          (if url pg w3 \<noteq> login_url self then [] else [Sleep 2])) \<and> u = url pg w3"
    using a ff sc sl dd n0 n1 n2 n3
    by (auto simp: login_iteration_unfold split: sum.splits if_splits)
  then show ?thesis using f2 by (intro exI [of _ "e0 @ e1 @ e2"] exI [of _ "e3 @ ReadUrl (url pg w3) #
          (if url pg w3 \<noteq> login_url self then [] else [Sleep 2])"]) auto
qed

section \<open>The login loop\<close>

lemma login_loop_not_failure: "returned (login_loop n pg self att evs w) \<noteq> Some False"
proof (induction n arbitrary: att evs w)
  case 0
  show ?case by simp
next
  case (Suc n)
  obtain fl evs1 w1 where it: "login_iteration pg self w = (fl, evs1, w1)" by (metis prod_cases3)
  have "fl \<noteq> Return False" using login_iteration_no_failure [of pg self w] it by simp
  with it Suc show ?case by (cases fl) auto
qed

lemma login_loop_attempt:
  "returned (login_loop n pg self att evs w) = None \<Longrightarrow>
     attempt (login_loop n pg self att evs w) = att + n"
proof (induction n arbitrary: att evs w)
  case 0
  show ?case by simp
next
  case (Suc n)
  obtain fl evs1 w1 where it: "login_iteration pg self w = (fl, evs1, w1)" by (metis prod_cases3)
  with Suc show ?case by (cases fl) auto
qed

lemma login_loop_attempt_bounds:
  "att \<le> attempt (login_loop n pg self att evs w) \<and> attempt (login_loop n pg self att evs w) \<le> att + n"
proof (induction n arbitrary: att evs w)
  case 0
  show ?case by simp
next
  case (Suc n)
  obtain fl evs1 w1 where it: "login_iteration pg self w = (fl, evs1, w1)" by (metis prod_cases3)
  show ?case
  proof (cases fl)
    case (Return b)
    with it show ?thesis by simp
  next
    case Continue
    with it Suc.IH [of "att + 1" "evs @ evs1" w1] show ?thesis by simp
  qed
qed

text \<open>One more pass, seen from the end of the run.\<close>

lemma login_loop_Suc_running:
  "returned (login_loop n pg self att evs w) = None \<Longrightarrow>
     login_loop (Suc n) pg self att evs w =
       login_loop (Suc 0) pg self (attempt (login_loop n pg self att evs w))
         (calls (login_loop n pg self att evs w)) (world (login_loop n pg self att evs w))"
proof (induction n arbitrary: att evs w)
  case 0
  show ?case by simp
next
  case (Suc n)
  obtain fl evs1 w1 where it: "login_iteration pg self w = (fl, evs1, w1)" by (metis prod_cases3)
  show ?case
  proof (cases fl)
    case (Return b)
    with it Suc.prems show ?thesis by simp
  next
    case Continue
    with it Suc.prems have "returned (login_loop n pg self (att + 1) (evs @ evs1) w1) = None" by simp
    from Suc.IH [OF this] it Continue show ?thesis by simp
  qed
qed

lemma login_loop_Suc_returned:
  "returned (login_loop n pg self att evs w) = Some b \<Longrightarrow>
     login_loop (Suc n) pg self att evs w = login_loop n pg self att evs w"
proof (induction n arbitrary: att evs w)
  case 0
  then show ?case by simp
next
  case (Suc n)
  obtain fl evs1 w1 where it: "login_iteration pg self w = (fl, evs1, w1)" by (metis prod_cases3)
  show ?case
  proof (cases fl)
    case (Return b)
    with it show ?thesis by simp
  next
    case Continue
    with it Suc.prems have "returned (login_loop n pg self (att + 1) (evs @ evs1) w1) = Some b" by simp
    from Suc.IH [OF this] it Continue show ?thesis by simp
  qed
qed

lemma login_loop_calls:
  assumes "\<And>w' c. c \<in> set (issued (login_iteration pg self w')) \<Longrightarrow> P c"
    and "\<And>c. c \<in> set evs \<Longrightarrow> P c"
    and "c \<in> set (calls (login_loop n pg self att evs w))"
  shows "P c"
  using assms(2,3)
proof (induction n arbitrary: att evs w)
  case 0
  then show ?case by simp
next
  case (Suc n)
  obtain fl evs1 w1 where it: "login_iteration pg self w = (fl, evs1, w1)" by (metis prod_cases3)
  have p1: "\<And>c. c \<in> set evs1 \<Longrightarrow> P c" using assms(1) [of _ w] it by simp
  show ?case
  proof (cases fl)
    case (Return b)
    with it Suc.prems p1 show ?thesis by auto
  next
    case Continue
    with it Suc.prems(2)
    have mem: "c \<in> set (calls (login_loop n pg self (att + 1) (evs @ evs1) w1))" by simp
    show ?thesis
    proof (rule Suc.IH [OF _ mem])
      fix c' assume "c' \<in> set (evs @ evs1)"
      then show "P c'" using Suc.prems(1) p1 by auto
    qed
  qed
qed

lemma login_loop_success_iff:
  assumes "\<And>u. ReadUrl u \<in> set evs \<Longrightarrow> u = login_url self"
  shows "returned (login_loop n pg self att evs w) = Some True \<longleftrightarrow>
     (\<exists>u. ReadUrl u \<in> set (calls (login_loop n pg self att evs w)) \<and> u \<noteq> login_url self)"
  using assms
proof (induction n arbitrary: att evs w)
  case 0
  then show ?case by auto
next
  case (Suc n)
  obtain fl evs1 w1 where it: "login_iteration pg self w = (fl, evs1, w1)" by (metis prod_cases3)
  show ?case
  proof (cases fl)
    case (Return b)
    have "b" using login_iteration_no_failure [of pg self w] it Return by (cases b) auto
    with login_iteration_success_iff [of pg self w] it Return Suc.prems show ?thesis by auto
  next
    case Continue
    have e1: "\<And>u. ReadUrl u \<in> set evs1 \<Longrightarrow> u = login_url self"
      using login_iteration_success_iff [of pg self w] it Continue by auto
    have eq: "login_loop (Suc n) pg self att evs w = login_loop n pg self (att + 1) (evs @ evs1) w1"
      using it Continue by simp
    show ?thesis
      unfolding eq
    proof (rule Suc.IH)
      fix u assume "ReadUrl u \<in> set (evs @ evs1)"
      then show "u = login_url self" using Suc.prems e1 by auto
    qed
  qed
qed

lemma login_loop_all_continue:
  "(\<And>w'. fst (login_iteration pg self w') = Continue) \<Longrightarrow>
     returned (login_loop n pg self att evs w) = None"
proof (induction n arbitrary: att evs w)
  case 0
  show ?case by simp
next
  case (Suc n)
  obtain fl evs1 w1 where it: "login_iteration pg self w = (fl, evs1, w1)" by (metis prod_cases3)
  with Suc.prems [of w] have "fl = Continue" by simp
  with it Suc show ?case by simp
qed

lemma solver_empty_iteration:
  assumes "\<And>w'. fst (solve_captcha pg w') = []"
  shows "fst (login_iteration pg self w) = Continue
     \<and> (\<forall>t. Fill captcha_sel t \<notin> set (issued (login_iteration pg self w)))"
proof -
  obtain r0 e0 w0 where ff: "fill_form pg self w = (r0, e0, w0)" by (metis prod_cases3)
  obtain t e1 w1 where sc: "solve_captcha pg w0 = (t, e1, w1)" by (metis prod_cases3)
  have t: "t = []" using assms [of w0] sc by simp
  have n0: "Fill captcha_sel t \<notin> set e0" for t
    using fill_form_calls [of "Fill captcha_sel t" pg self w] ff sel_distinct by auto
  have n1: "\<And>t. Fill captcha_sel t \<notin> set e1" using solve_captcha_calls [of _ pg w0] sc by auto
  show ?thesis using ff sc t n0 n1
    by (auto simp: login_iteration_unfold split: sum.splits)
qed

lemma blank_captcha_iteration:
  assumes "fst (fill_form pg self w) = Inr ()"
    and "fst (solve_captcha pg (snd (snd (fill_form pg self w)))) = []"
  shows "fst (login_iteration pg self w) = Continue
     \<and> (\<exists>pre. issued (login_iteration pg self w) = pre @ [Reload, Sleep 2])
     \<and> (\<forall>t. Fill captcha_sel t \<notin> set (issued (login_iteration pg self w)))"
proof -
  obtain r0 e0 w0 where ff: "fill_form pg self w = (r0, e0, w0)" by (metis prod_cases3)
  obtain t e1 w1 where sc: "solve_captcha pg w0 = (t, e1, w1)" by (metis prod_cases3)
  have r0: "r0 = Inr ()" and t: "t = []" using assms ff sc by simp_all
  have n0: "Fill captcha_sel t \<notin> set e0" for t
    using fill_form_calls [of "Fill captcha_sel t" pg self w] ff sel_distinct by auto
  have n1: "\<And>t. Fill captcha_sel t \<notin> set e1" using solve_captcha_calls [of _ pg w0] sc by auto
  have "login_iteration pg self w =
      (Continue, (e0 @ e1) @ [Reload, Sleep 2], sleep pg 2 (snd (reload pg w1)))"
    using ff sc r0 t by (simp add: login_iteration_unfold)
  then show ?thesis using n0 n1 by auto
qed

lemma login_unlimited_calls:
  assumes "\<And>w' c. c \<in> set (issued (login_iteration pg self w')) \<Longrightarrow> P c"
    and "\<And>u. P (Goto u)" and "\<And>k. P (Sleep k)"
    and "c \<in> set (calls (login_unlimited n pg self w))"
  shows "P c"
proof -
  obtain r w1 where g: "goto pg (login_url self) w = (r, w1)" by (metis prod.collapse)
  show ?thesis
  proof (cases r)
    case (Inl e)
    with g assms(4) assms(2) show ?thesis by (auto simp: login_unlimited_def prim_def)
  next
    case (Inr u)
    with g assms(4)
    have "c \<in> set (calls (login_loop n pg self 0 ([Goto (login_url self)] @ [Sleep 2]) (sleep pg 2 w1)))"
      by (simp add: login_unlimited_def prim_def)
    moreover have "\<And>c'. c' \<in> set ([Goto (login_url self)] @ [Sleep 2]) \<Longrightarrow> P c'"
      using assms(2,3) by auto
    ultimately show ?thesis using login_loop_calls [of pg self P] assms(1) by blast
  qed
qed

lemma login_unlimited_cases:
  "(\<exists>e w1. goto pg (login_url self) w = (Inl e, w1)
       \<and> login_unlimited n pg self w =
           \<lparr>returned = Some False, attempt = 0, calls = [Goto (login_url self)], world = w1\<rparr>)
   \<or> (\<exists>w1. goto pg (login_url self) w = (Inr (), w1)
       \<and> login_unlimited n pg self w =
           login_loop n pg self 0 [Goto (login_url self), Sleep 2] (sleep pg 2 w1))"
proof -
  obtain r w1 where g: "goto pg (login_url self) w = (r, w1)" by (metis prod.collapse)
  then show ?thesis by (cases r) (auto simp: login_unlimited_def prim_def)
qed

text \<open>What one more pass does to the loop, and how many reloads a run has issued.\<close>

lemma login_loop_continue_step:
  "fst (login_iteration pg self w) = Continue \<Longrightarrow>
     login_loop (Suc n) pg self att evs0 w =
       login_loop n pg self (att + 1) (evs0 @ issued (login_iteration pg self w))
         (snd (snd (login_iteration pg self w)))"
  by (cases "login_iteration pg self w") auto

lemma login_loop_return_step:
  "fst (login_iteration pg self w) = Return b \<Longrightarrow>
     login_loop (Suc n) pg self att evs0 w =
       \<lparr>returned = Some b, attempt = att + 1,
        calls = evs0 @ issued (login_iteration pg self w),
        world = snd (snd (login_iteration pg self w))\<rparr>"
  by (cases "login_iteration pg self w") auto

lemma login_loop_Suc_calls:
  "returned (login_loop n pg self att evs w) = None \<Longrightarrow>
     calls (login_loop (Suc n) pg self att evs w) =
       calls (login_loop n pg self att evs w)
         @ issued (login_iteration pg self (world (login_loop n pg self att evs w)))"
proof -
  assume r: "returned (login_loop n pg self att evs w) = None"
  have one: "\<And>a e w'. calls (login_loop (Suc 0) pg self a e w') = e @ issued (login_iteration pg self w')"
    by (simp split: prod.splits flow.splits)
  from login_loop_Suc_running [OF r] one show ?thesis by simp
qed

lemma login_loop_reload_count:
  assumes "\<And>w'. fst (login_iteration pg self w') = Continue
      \<and> length (filter (\<lambda>c. c = Reload) (issued (login_iteration pg self w'))) = 1"
  shows "length (filter (\<lambda>c. c = Reload) (calls (login_loop n pg self att evs w)))
     = length (filter (\<lambda>c. c = Reload) evs) + n"
proof (induction n arbitrary: att evs w)
  case 0
  show ?case by simp
next
  case (Suc n)
  obtain fl evs1 w1 where it: "login_iteration pg self w = (fl, evs1, w1)" by (metis prod_cases3)
  with assms [of w] have fl: "fl = Continue" and c: "length (filter (\<lambda>c. c = Reload) evs1) = 1"
    by simp_all
  from it fl c Suc.IH [of "att + 1" "evs @ evs1" w1] show ?case by simp
qed

lemma blank_captcha_one_reload:
  assumes "fst (fill_form pg self w) = Inr ()"
    and "fst (solve_captcha pg (snd (snd (fill_form pg self w)))) = []"
  shows "length (filter (\<lambda>c. c = Reload) (issued (login_iteration pg self w))) = 1"
proof -
  obtain r0 e0 w0 where ff: "fill_form pg self w = (r0, e0, w0)" by (metis prod_cases3)
  obtain t e1 w1 where sc: "solve_captcha pg w0 = (t, e1, w1)" by (metis prod_cases3)
  have r0: "r0 = Inr ()" and t: "t = []" using assms ff sc by simp_all
  have n0: "Reload \<notin> set e0" using fill_form_calls [of Reload pg self w] ff by auto
  have n1: "Reload \<notin> set e1" using solve_captcha_calls [of Reload pg w0] sc by auto
  have "login_iteration pg self w =
      (Continue, (e0 @ e1) @ [Reload, Sleep 2], sleep pg 2 (snd (reload pg w1)))"
    using ff sc r0 t by (simp add: login_iteration_unfold)
  moreover have "filter (\<lambda>c. c = Reload) e0 = []" "filter (\<lambda>c. c = Reload) e1 = []"
    using n0 n1 by (auto simp: filter_empty_conv)
  ultimately show ?thesis by simp
qed

section \<open>Claims about login\_unlimited\<close>

text \<open>
  C1, as stated, says that \<^verbatim>\<open>login_unlimited\<close> never returns a failure value. It does: when
  the first \<^verbatim>\<open>page.goto\<close> raises, the handler of the outer \<^verbatim>\<open>try\<close> returns False. Here the
  browser is offline and the method returns False without entering the loop.
\<close>

theorem login_unlimited_fails_when_goto_raises:
  "returned (login_unlimited 1 offline (init_account ''user'' ''secret'' True) 0) = Some False"
  by (simp add: login_unlimited_def prim_def offline_def init_account_def)

text \<open>
  C1, amended. \<^verbatim>\<open>login_unlimited\<close> returns a failure value exactly when the first navigation
  to the login page raises, before the loop is entered. Once in the loop, no return carries
  failure (neither of the loop nor of one pass), and when every pass ends without success
  the loop is still running after any number \<open>n\<close> of passes, having made \<open>n\<close> attempts: the
  loop itself enforces no bound.
\<close>

theorem login_unlimited_failure_only_before_loop:
  "(returned (login_unlimited n pg self w) = Some False
      \<longleftrightarrow> (\<exists>e. fst (goto pg (login_url self) w) = Inl e))
   \<and> returned (login_loop n pg self att evs w) \<noteq> Some False
   \<and> fst (login_iteration pg self w) \<noteq> Return False
   \<and> ((\<forall>w'. fst (login_iteration pg self w') = Continue) \<longrightarrow>
        fst (goto pg (login_url self) w) = Inr () \<longrightarrow>
        returned (login_unlimited n pg self w) = None \<and> attempt (login_unlimited n pg self w) = n)"
proof -
  have a: "returned (login_unlimited n pg self w) = Some False
      \<longleftrightarrow> (\<exists>e. fst (goto pg (login_url self) w) = Inl e)"
    using login_unlimited_cases [of pg self w n] login_loop_not_failure [of n pg self]
    by auto
  have b: "returned (login_unlimited n pg self w) = None \<and> attempt (login_unlimited n pg self w) = n"
    if c: "\<forall>w'. fst (login_iteration pg self w') = Continue"
      and g: "fst (goto pg (login_url self) w) = Inr ()"
  proof -
    from login_unlimited_cases [of pg self w n] g obtain w1 where
      eq: "login_unlimited n pg self w =
             login_loop n pg self 0 [Goto (login_url self), Sleep 2] (sleep pg 2 w1)"
      by auto
    have r: "returned (login_loop n pg self 0 [Goto (login_url self), Sleep 2] (sleep pg 2 w1)) = None"
      using login_loop_all_continue [of pg self] c by blast
    from login_loop_attempt [OF r] r eq show ?thesis by simp
  qed
  show ?thesis
    using a b login_loop_not_failure [of n pg self att evs w] login_iteration_no_failure [of pg self w]
    by blast
qed

text \<open>The amended C1 at a browser whose pages never load the form, and at the offline
  browser.\<close>

theorem login_unlimited_failure_only_before_loop_witness:
  "returned (login_unlimited 3 (offline\<lparr>goto := \<lambda>u w. (Inr (), w)\<rparr>)
       (init_account ''user'' ''secret'' True) 0) = None
   \<and> attempt (login_unlimited 3 (offline\<lparr>goto := \<lambda>u w. (Inr (), w)\<rparr>)
       (init_account ''user'' ''secret'' True) 0) = 3
   \<and> returned (login_unlimited 3 offline (init_account ''user'' ''secret'' True) 0) = Some False"
proof -
  have c: "\<forall>w'. fst (login_iteration (offline\<lparr>goto := \<lambda>u w. (Inr (), w)\<rparr>)
      (init_account ''user'' ''secret'' True) w') = Continue"
    by (simp add: login_iteration_def login_try_def fill_form_def seq_def prim_def offline_def)
  have g: "fst (goto (offline\<lparr>goto := \<lambda>u w. (Inr (), w)\<rparr>)
      (login_url (init_account ''user'' ''secret'' True)) (0::nat)) = Inr ()"
    by simp
  have g': "\<exists>e. fst (goto offline (login_url (init_account ''user'' ''secret'' True)) (0::nat)) = Inl e"
    by (simp add: offline_def)
  show ?thesis
    using login_unlimited_failure_only_before_loop
      [of 3 "offline\<lparr>goto := \<lambda>u w. (Inr (), w)\<rparr>" "init_account ''user'' ''secret'' True" 0 0 "[]"]
      login_unlimited_failure_only_before_loop
      [of 3 offline "init_account ''user'' ''secret'' True" 0 0 "[]"] c g g'
    by blast
qed

text \<open>
  C9. The attempt counter grows by exactly one with every pass through the loop: while the
  loop has not returned after \<open>n\<close> passes the counter is its initial value plus \<open>n\<close>, and one
  more pass makes it one more. No bound is put on it.
\<close>

theorem attempt_counter_increases_by_one:
  "returned (login_loop n pg self att evs w) = None \<Longrightarrow>
     attempt (login_loop n pg self att evs w) = att + n
     \<and> attempt (login_loop (Suc n) pg self att evs w) = attempt (login_loop n pg self att evs w) + 1"
proof -
  assume r: "returned (login_loop n pg self att evs w) = None"
  have one: "\<And>a e w'. attempt (login_loop (Suc 0) pg self a e w') = a + 1"
    by (simp split: prod.splits flow.splits)
  from login_loop_attempt [OF r] login_loop_Suc_running [OF r] one show ?thesis by simp
qed

text \<open>C9 at the offline browser: three passes, counter 3; a fourth pass, counter 4.\<close>

theorem attempt_counter_increases_by_one_witness:
  "returned (login_loop 3 offline (init_account ''user'' ''secret'' True) 0 [] 0) = None
   \<and> attempt (login_loop 3 offline (init_account ''user'' ''secret'' True) 0 [] 0) = 3
   \<and> attempt (login_loop 4 offline (init_account ''user'' ''secret'' True) 0 [] 0) = 4"
proof -
  have c: "\<And>w'. fst (login_iteration offline (init_account ''user'' ''secret'' True) w') = Continue"
    by (simp add: login_iteration_def login_try_def fill_form_def seq_def prim_def offline_def)
  have r: "returned (login_loop 3 offline (init_account ''user'' ''secret'' True) 0 [] 0) = None"
    using login_loop_all_continue [of offline "init_account ''user'' ''secret'' True"] c by blast
  from attempt_counter_increases_by_one [OF r] r show ?thesis by simp
qed


text \<open>
  C3. When the form was filled and \<^verbatim>\<open>solve_captcha\<close> returns the empty string, the pass
  does not fill the CAPTCHA field at all: it reloads the page, sleeps, and the loop goes on
  to the next pass with the counter increased. In no run, on no page, is the CAPTCHA field
  filled with the empty string. With a solver that always returns the empty string the loop
  never returns success and never fills the CAPTCHA field; if the login page could be opened
  it is still running after any number \<open>n\<close> of passes, having made \<open>n\<close> attempts, and a
  further pass is run from the world it has reached; when moreover the form can always be
  filled, it has reloaded the page exactly \<open>n\<close> times.
\<close>

theorem blank_captcha_never_submitted:
  "(fst (fill_form pg self w) = Inr () \<longrightarrow>
      fst (solve_captcha pg (snd (snd (fill_form pg self w)))) = [] \<longrightarrow>
        fst (login_iteration pg self w) = Continue
        \<and> (\<exists>pre. issued (login_iteration pg self w) = pre @ [Reload, Sleep 2])
        \<and> (\<forall>t. Fill captcha_sel t \<notin> set (issued (login_iteration pg self w)))
        \<and> login_loop (Suc n) pg self att evs0 w =
            login_loop n pg self (att + 1) (evs0 @ issued (login_iteration pg self w))
              (snd (snd (login_iteration pg self w))))
   \<and> Fill captcha_sel [] \<notin> set (calls (login_unlimited n pg self w))
   \<and> ((\<forall>w'. fst (solve_captcha pg w') = []) \<longrightarrow>
        returned (login_unlimited n pg self w) \<noteq> Some True
        \<and> (\<forall>t. Fill captcha_sel t \<notin> set (calls (login_unlimited n pg self w)))
        \<and> (fst (goto pg (login_url self) w) = Inr () \<longrightarrow>
             returned (login_unlimited n pg self w) = None
             \<and> attempt (login_unlimited n pg self w) = n
             \<and> calls (login_unlimited (Suc n) pg self w) =
                 calls (login_unlimited n pg self w)
                   @ issued (login_iteration pg self (world (login_unlimited n pg self w)))
             \<and> ((\<forall>w'. fst (fill_form pg self w') = Inr ()) \<longrightarrow>
                  length (filter (\<lambda>c. c = Reload) (calls (login_unlimited n pg self w))) = n)))"
proof -
  have b: "Fill captcha_sel [] \<notin> set (calls (login_unlimited n pg self w))"
    using login_unlimited_calls [of pg self "\<lambda>c. c \<noteq> Fill captcha_sel []" "Fill captcha_sel []" n w]
      login_iteration_no_blank_captcha [of pg self]
    by auto
  have a: "fst (login_iteration pg self w) = Continue
        \<and> (\<exists>pre. issued (login_iteration pg self w) = pre @ [Reload, Sleep 2])
        \<and> (\<forall>t. Fill captcha_sel t \<notin> set (issued (login_iteration pg self w)))
        \<and> login_loop (Suc n) pg self att evs0 w =
            login_loop n pg self (att + 1) (evs0 @ issued (login_iteration pg self w))
              (snd (snd (login_iteration pg self w)))"
    if "fst (fill_form pg self w) = Inr ()"
      and "fst (solve_captcha pg (snd (snd (fill_form pg self w)))) = []"
    using blank_captcha_iteration [OF that] login_loop_continue_step [of pg self w n att evs0]
    by blast
  have c: "returned (login_unlimited n pg self w) \<noteq> Some True
        \<and> (\<forall>t. Fill captcha_sel t \<notin> set (calls (login_unlimited n pg self w)))
        \<and> (fst (goto pg (login_url self) w) = Inr () \<longrightarrow>
             returned (login_unlimited n pg self w) = None
             \<and> attempt (login_unlimited n pg self w) = n
             \<and> calls (login_unlimited (Suc n) pg self w) =
                 calls (login_unlimited n pg self w)
                   @ issued (login_iteration pg self (world (login_unlimited n pg self w)))
             \<and> ((\<forall>w'. fst (fill_form pg self w') = Inr ()) \<longrightarrow>
                  length (filter (\<lambda>c. c = Reload) (calls (login_unlimited n pg self w))) = n))"
    if e: "\<forall>w'. fst (solve_captcha pg w') = []"
  proof -
    have it: "fst (login_iteration pg self w') = Continue
        \<and> (\<forall>t. Fill captcha_sel t \<notin> set (issued (login_iteration pg self w')))" for w'
      using solver_empty_iteration [of pg self w'] e by blast
    have nofill: "Fill captcha_sel t \<notin> set (calls (login_unlimited n pg self w))" for t
      using login_unlimited_calls [of pg self "\<lambda>c. c \<noteq> Fill captcha_sel t" "Fill captcha_sel t" n w] it
      by auto
    have loop: "returned (login_loop k pg self a es w') = None" for k a es w'
      using login_loop_all_continue [of pg self k a es w'] it by blast
    have nt: "returned (login_unlimited n pg self w) \<noteq> Some True"
      using login_unlimited_cases [of pg self w n] loop by auto
    have run: "returned (login_unlimited n pg self w) = None
        \<and> attempt (login_unlimited n pg self w) = n
        \<and> calls (login_unlimited (Suc n) pg self w) =
             calls (login_unlimited n pg self w)
               @ issued (login_iteration pg self (world (login_unlimited n pg self w)))
        \<and> ((\<forall>w'. fst (fill_form pg self w') = Inr ()) \<longrightarrow>
              length (filter (\<lambda>c. c = Reload) (calls (login_unlimited n pg self w))) = n)"
      if g: "fst (goto pg (login_url self) w) = Inr ()"
    proof -
      obtain w1 where g1: "goto pg (login_url self) w = (Inr (), w1)"
        using g by (metis prod.collapse)
      have eq: "login_unlimited k pg self w =
          login_loop k pg self 0 [Goto (login_url self), Sleep 2] (sleep pg 2 w1)" for k
        using g1 by (simp add: login_unlimited_def prim_def)
      have r: "returned (login_unlimited n pg self w) = None" using eq loop by simp
      have at: "attempt (login_unlimited n pg self w) = n"
        using eq login_loop_attempt [of n pg self 0] loop by simp
      have st: "calls (login_unlimited (Suc n) pg self w) =
             calls (login_unlimited n pg self w)
               @ issued (login_iteration pg self (world (login_unlimited n pg self w)))"
        unfolding eq by (rule login_loop_Suc_calls) (rule loop)
      have cnt: "length (filter (\<lambda>c. c = Reload) (calls (login_unlimited n pg self w))) = n"
        if f: "\<forall>w'. fst (fill_form pg self w') = Inr ()"
      proof -
        have one: "fst (login_iteration pg self w') = Continue
            \<and> length (filter (\<lambda>c. c = Reload) (issued (login_iteration pg self w'))) = 1" for w'
          using it [of w'] blank_captcha_one_reload [of pg self w'] f e by blast
        show ?thesis
          unfolding eq
          using login_loop_reload_count [of pg self n 0 "[Goto (login_url self), Sleep 2]", OF one]
          by simp
      qed
      from r at st cnt show ?thesis by blast
    qed
    from nt nofill run show ?thesis by blast
  qed
  show ?thesis using a b c by blast
qed

text \<open>C3 at a browser that works but has no recogniser (\<^verbatim>\<open>ocr = None\<close>): after three
  passes the loop is running, has filled no CAPTCHA and has reloaded three times.\<close>

theorem blank_captcha_never_submitted_witness:
  "returned (login_unlimited 3 ((online ''x'')\<lparr>ocr := None\<rparr>) (init_account ''user'' ''secret'' True) 0)
     = None
   \<and> attempt (login_unlimited 3 ((online ''x'')\<lparr>ocr := None\<rparr>) (init_account ''user'' ''secret'' True) 0)
     = 3
   \<and> (\<forall>t. Fill captcha_sel t \<notin>
        set (calls (login_unlimited 3 ((online ''x'')\<lparr>ocr := None\<rparr>)
          (init_account ''user'' ''secret'' True) 0)))
   \<and> (\<exists>pre. issued (login_iteration ((online ''x'')\<lparr>ocr := None\<rparr>)
          (init_account ''user'' ''secret'' True) 0) = pre @ [Reload, Sleep 2])
   \<and> length (filter (\<lambda>c. c = Reload)
        (calls (login_unlimited 3 ((online ''x'')\<lparr>ocr := None\<rparr>)
          (init_account ''user'' ''secret'' True) 0))) = 3
   \<and> login_loop (Suc 3) ((online ''x'')\<lparr>ocr := None\<rparr>) (init_account ''user'' ''secret'' True) 0 [] 0
       = login_loop 3 ((online ''x'')\<lparr>ocr := None\<rparr>) (init_account ''user'' ''secret'' True) (0 + 1)
           ([] @ issued (login_iteration ((online ''x'')\<lparr>ocr := None\<rparr>)
                  (init_account ''user'' ''secret'' True) 0))
           (snd (snd (login_iteration ((online ''x'')\<lparr>ocr := None\<rparr>)
                  (init_account ''user'' ''secret'' True) 0)))"
proof -
  have e: "\<forall>w'. fst (solve_captcha ((online ''x'')\<lparr>ocr := None\<rparr>) w') = []"
    by (simp add: solve_captcha_def solve_captcha_try_def io_defs online_def startswith_def)
  have f: "\<forall>w'. fst (fill_form ((online ''x'')\<lparr>ocr := None\<rparr>) (init_account ''user'' ''secret'' True) w')
      = Inr ()"
    by (simp add: fill_form_def io_defs online_def)
  have g: "fst (goto ((online ''x'')\<lparr>ocr := None\<rparr>)
      (login_url (init_account ''user'' ''secret'' True)) 0) = Inr ()"
    by (simp add: online_def)
  show ?thesis
    using blank_captcha_never_submitted
      [of "(online ''x'')\<lparr>ocr := None\<rparr>" "init_account ''user'' ''secret'' True" 0 3 0 "[]"] e f g
    by blast
qed

text \<open>
  C7, as stated, says that after a failure to locate or fill the form the loop sleeps for 2
  and reloads the page. The handler of the inner \<^verbatim>\<open>try\<close> only sleeps: at the offline browser
  the wait for the user name field times out, and the pass issues that wait and a sleep of
  2, and no reload.
\<close>

theorem form_failure_retries_without_reload:
  "fst (fill_form offline (init_account ''user'' ''secret'' True) 0) = Inl TimeoutError
   \<and> login_iteration offline (init_account ''user'' ''secret'' True) 0
       = (Continue, [WaitFor username_sel 10000, Sleep 2], 0)
   \<and> Reload \<notin> set (issued (login_iteration offline (init_account ''user'' ''secret'' True) 0))"
  by (simp add: login_iteration_def login_try_def fill_form_def seq_def prim_def offline_def)

text \<open>
  C7, amended. When locating or filling the form raises, the pass ends after a sleep of 2
  (the same delay at every attempt), issues no reload, and the loop goes on to the next
  pass with the counter increased.
\<close>

theorem form_failure_constant_delay:
  "fill_form pg self w = (Inl e, evs, w1) \<Longrightarrow>
     login_iteration pg self w = (Continue, evs @ [Sleep 2], sleep pg 2 w1)
     \<and> Reload \<notin> set (evs @ [Sleep 2])
     \<and> login_loop (Suc n) pg self att evs0 w =
         login_loop n pg self (att + 1) (evs0 @ evs @ [Sleep 2]) (sleep pg 2 w1)"
proof -
  assume ff: "fill_form pg self w = (Inl e, evs, w1)"
  have it: "login_iteration pg self w = (Continue, evs @ [Sleep 2], sleep pg 2 w1)"
    using ff by (simp add: login_iteration_unfold)
  have "Reload \<notin> set evs" using fill_form_calls [of Reload pg self w] ff by auto
  with it show ?thesis by simp
qed

text \<open>The amended C7 at the offline browser, on the eighth attempt.\<close>

theorem form_failure_constant_delay_witness:
  "login_iteration offline (init_account ''user'' ''secret'' True) 5
       = (Continue, [WaitFor username_sel 10000] @ [Sleep 2], sleep offline 2 5)
   \<and> Reload \<notin> set ([WaitFor username_sel 10000] @ [Sleep 2])
   \<and> login_loop (Suc 2) offline (init_account ''user'' ''secret'' True) 7 [] 5 =
         login_loop 2 offline (init_account ''user'' ''secret'' True) (7 + 1)
           ([] @ [WaitFor username_sel 10000] @ [Sleep 2]) (sleep offline 2 5)"
proof -
  have ff: "fill_form offline (init_account ''user'' ''secret'' True) 5
      = (Inl TimeoutError, [WaitFor username_sel 10000], 5)"
    by (simp add: fill_form_def seq_def prim_def offline_def)
  from form_failure_constant_delay [OF ff] show ?thesis .
qed

text \<open>
  C8. A pass returns success exactly when it read the address of the page and the address
  differs from the login address, and the loop then returns True with the counter increased.
  When the address read equals the login address the pass sleeps for 2 and the loop retries:
  it runs the next pass, with the counter increased, from the world the pass left. The
  address is only read after the form was submitted (a click or the Enter key) and after
  the settle delay of 3. For the whole method: it returns True exactly when some address
  read differs from the login address.
\<close>

theorem login_succeeds_iff_address_differs:
  "(fst (login_iteration pg self w) = Return True \<longleftrightarrow>
      (\<exists>u. ReadUrl u \<in> set (issued (login_iteration pg self w)) \<and> u \<noteq> login_url self))
   \<and> (ReadUrl (login_url self) \<in> set (issued (login_iteration pg self w)) \<longrightarrow>
        fst (login_iteration pg self w) = Continue
        \<and> (\<exists>pre. issued (login_iteration pg self w) = pre @ [ReadUrl (login_url self), Sleep 2])
        \<and> login_loop (Suc n) pg self att evs0 w =
            login_loop n pg self (att + 1) (evs0 @ issued (login_iteration pg self w))
              (snd (snd (login_iteration pg self w))))
   \<and> ((\<exists>u. ReadUrl u \<in> set (issued (login_iteration pg self w)) \<and> u \<noteq> login_url self) \<longrightarrow>
        login_loop (Suc n) pg self att evs0 w =
          \<lparr>returned = Some True, attempt = att + 1,
           calls = evs0 @ issued (login_iteration pg self w),
           world = snd (snd (login_iteration pg self w))\<rparr>)
   \<and> (\<forall>u. ReadUrl u \<in> set (issued (login_iteration pg self w)) \<longrightarrow>
        (\<exists>pre post. issued (login_iteration pg self w) = pre @ Sleep 3 # post
           \<and> ReadUrl u \<in> set post
           \<and> ((\<exists>b. Click b \<in> set pre) \<or> Press captcha_sel ''Enter'' \<in> set pre)))
   \<and> (returned (login_unlimited n pg self w) = Some True \<longleftrightarrow>
        (\<exists>u. ReadUrl u \<in> set (calls (login_unlimited n pg self w)) \<and> u \<noteq> login_url self))"
proof -
  have loop: "returned (login_unlimited n pg self w) = Some True \<longleftrightarrow>
        (\<exists>u. ReadUrl u \<in> set (calls (login_unlimited n pg self w)) \<and> u \<noteq> login_url self)"
    using login_unlimited_cases [of pg self w n]
      login_loop_success_iff [of "[Goto (login_url self), Sleep 2]" self n pg 0]
    by auto
  have retry: "login_loop (Suc n) pg self att evs0 w =
            login_loop n pg self (att + 1) (evs0 @ issued (login_iteration pg self w))
              (snd (snd (login_iteration pg self w)))"
    if "ReadUrl (login_url self) \<in> set (issued (login_iteration pg self w))"
    using login_iteration_same_address [OF that] login_loop_continue_step [of pg self w n att evs0]
    by blast
  have succ: "login_loop (Suc n) pg self att evs0 w =
          \<lparr>returned = Some True, attempt = att + 1,
           calls = evs0 @ issued (login_iteration pg self w),
           world = snd (snd (login_iteration pg self w))\<rparr>"
    if "\<exists>u. ReadUrl u \<in> set (issued (login_iteration pg self w)) \<and> u \<noteq> login_url self"
    using that login_iteration_success_iff [of pg self w]
      login_loop_return_step [of pg self w True n att evs0]
    by blast
  show ?thesis
    using login_iteration_success_iff [of pg self w] login_iteration_same_address [of self pg w]
      login_iteration_settle [of _ pg self w] loop retry succ
    by blast
qed

text \<open>C8 at a browser whose page changes address on the click, at one whose page stays
  on the login address, and at one whose page changes address only during the second pass:
  there the first pass fails, the loop retries and returns True at attempt 2.\<close>

theorem login_succeeds_iff_address_differs_witness:
  "fst (login_iteration (online ''x'') (init_account ''user'' ''secret'' True) 0) = Return True
   \<and> returned (login_unlimited 1 (online ''x'') (init_account ''user'' ''secret'' True) 0) = Some True
   \<and> fst (login_iteration ((online ''x'')\<lparr>click := \<lambda>e w. (Inr (), w)\<rparr>)
        (init_account ''user'' ''secret'' True) 0) = Continue
   \<and> (\<exists>pre post. issued (login_iteration (online ''x'') (init_account ''user'' ''secret'' True) 0)
          = pre @ Sleep 3 # post
        \<and> ReadUrl ''https://qd.dxssxdk.com/home'' \<in> set post
        \<and> ((\<exists>b. Click b \<in> set pre) \<or> Press captcha_sel ''Enter'' \<in> set pre))
   \<and> returned (login_loop (Suc (Suc 0))
        ((online ''x'')\<lparr>url := \<lambda>w. if w < 3 then ''https://qd.dxssxdk.com/lanhu_yonghudenglu''
                                    else ''https://qd.dxssxdk.com/home''\<rparr>)
        (init_account ''user'' ''secret'' True) 0 [] 0) = Some True
   \<and> attempt (login_loop (Suc (Suc 0))
        ((online ''x'')\<lparr>url := \<lambda>w. if w < 3 then ''https://qd.dxssxdk.com/lanhu_yonghudenglu''
                                    else ''https://qd.dxssxdk.com/home''\<rparr>)
        (init_account ''user'' ''secret'' True) 0 [] 0) = 2"
proof -
  let ?acct = "init_account ''user'' ''secret'' True"
  let ?slow = "(online ''x'')\<lparr>url := \<lambda>w. if w < 3 then ''https://qd.dxssxdk.com/lanhu_yonghudenglu''
                                    else ''https://qd.dxssxdk.com/home''\<rparr>"
  have a: "ReadUrl ''https://qd.dxssxdk.com/home''
      \<in> set (issued (login_iteration (online ''x'') ?acct 0))"
    by (simp add: login_iteration_def login_try_def fill_form_def submit_login_def check_outcome_def
        dismiss_dialog_def solve_captcha_def solve_captcha_try_def io_defs online_def
        init_account_def startswith_def)
  have b: "ReadUrl ''https://qd.dxssxdk.com/home''
      \<in> set (calls (login_unlimited 1 (online ''x'') ?acct 0))"
    by (simp add: login_unlimited_def login_iteration_def login_try_def fill_form_def submit_login_def
        check_outcome_def dismiss_dialog_def solve_captcha_def solve_captcha_try_def io_defs online_def
        init_account_def startswith_def)
  have c: "ReadUrl (login_url ?acct)
      \<in> set (issued (login_iteration ((online ''x'')\<lparr>click := \<lambda>e w. (Inr (), w)\<rparr>) ?acct 0))"
    by (simp add: login_iteration_def login_try_def fill_form_def submit_login_def check_outcome_def
        dismiss_dialog_def solve_captcha_def solve_captcha_try_def io_defs online_def
        init_account_def startswith_def)
  have d: "''https://qd.dxssxdk.com/home'' \<noteq> login_url ?acct"
    by (simp add: init_account_def)
  have p1: "ReadUrl (login_url ?acct) \<in> set (issued (login_iteration ?slow ?acct 0))"
    and w1: "snd (snd (login_iteration ?slow ?acct 0)) = 2"
    by (simp_all add: login_iteration_def login_try_def fill_form_def submit_login_def check_outcome_def
        dismiss_dialog_def solve_captcha_def solve_captcha_try_def io_defs online_def
        init_account_def startswith_def)
  have p2: "ReadUrl ''https://qd.dxssxdk.com/home'' \<in> set (issued (login_iteration ?slow ?acct 2))"
    by (simp add: login_iteration_def login_try_def fill_form_def submit_login_def check_outcome_def
        dismiss_dialog_def solve_captcha_def solve_captcha_try_def io_defs online_def
        init_account_def startswith_def)
  have s1: "login_loop (Suc (Suc 0)) ?slow ?acct 0 [] 0 =
      login_loop (Suc 0) ?slow ?acct (0 + 1) ([] @ issued (login_iteration ?slow ?acct 0)) 2"
    using login_succeeds_iff_address_differs [of ?slow ?acct 0 "Suc 0" 0 "[]"] p1 w1 by simp
  have s2: "login_loop (Suc 0) ?slow ?acct (0 + 1) ([] @ issued (login_iteration ?slow ?acct 0)) 2 =
      \<lparr>returned = Some True, attempt = (0 + 1) + 1,
       calls = ([] @ issued (login_iteration ?slow ?acct 0)) @ issued (login_iteration ?slow ?acct 2),
       world = snd (snd (login_iteration ?slow ?acct 2))\<rparr>"
    using login_succeeds_iff_address_differs
      [of ?slow ?acct 2 0 "0 + 1" "[] @ issued (login_iteration ?slow ?acct 0)"] p2 d by blast
  have two: "returned (login_loop (Suc (Suc 0)) ?slow ?acct 0 [] 0) = Some True
      \<and> attempt (login_loop (Suc (Suc 0)) ?slow ?acct 0 [] 0) = 2"
    unfolding s1 s2 by simp
  have one: "fst (login_iteration (online ''x'') ?acct 0) = Return True
   \<and> returned (login_unlimited 1 (online ''x'') ?acct 0) = Some True
   \<and> fst (login_iteration ((online ''x'')\<lparr>click := \<lambda>e w. (Inr (), w)\<rparr>) ?acct 0) = Continue
   \<and> (\<exists>pre post. issued (login_iteration (online ''x'') ?acct 0) = pre @ Sleep 3 # post
        \<and> ReadUrl ''https://qd.dxssxdk.com/home'' \<in> set post
        \<and> ((\<exists>b. Click b \<in> set pre) \<or> Press captcha_sel ''Enter'' \<in> set pre))"
    using login_succeeds_iff_address_differs [of "online ''x''" ?acct 0 1 0 "[]"]
      login_succeeds_iff_address_differs
        [of "(online ''x'')\<lparr>click := \<lambda>e w. (Inr (), w)\<rparr>" ?acct 0 1 0 "[]"]
      a b c d
    by blast
  from one two show ?thesis by blast
qed

section \<open>Claims about send\_notification and main\<close>

text \<open>
  C10. When the app token or the recipient uid is the empty string, \<^verbatim>\<open>send_notification\<close>
  returns at once: it issues no call at all, in particular no HTTP request, and leaves the
  world as it was.
\<close>

theorem send_notification_skipped_without_token_or_uid:
  "app_token = [] \<or> uid = [] \<Longrightarrow> send_notification pg app_token uid title message w = ([], w)"
  by (auto simp: send_notification_def)

text \<open>C10 with an empty token, and with an empty uid.\<close>

theorem send_notification_skipped_without_token_or_uid_witness:
  "send_notification (online ''x'') [] ''UID_1'' ''title'' ''message'' 0 = ([], 0)
   \<and> send_notification (online ''x'') ''AT_1'' [] ''title'' ''message'' 0 = ([], 0)"
  using send_notification_skipped_without_token_or_uid [of "[]" "''UID_1''" "online ''x''" "''title''" "''message''" 0]
    send_notification_skipped_without_token_or_uid [of "''AT_1''" "[]" "online ''x''" "''title''" "''message''" 0]
  by simp

lemma send_notification_posts:
  "app_token \<noteq> [] \<Longrightarrow> uid \<noteq> [] \<Longrightarrow>
     fst (send_notification pg app_token uid title message w) =
       [Post wxpusher_url \<lparr>appToken = app_token,
          content_md = ''# '' @ title @ [CHR 0x0A, CHR 0x0A] @ message,
          summary = title, contentType = 3, uids = [uid], verifyPay = False\<rparr>]"
  by (auto simp: send_notification_def Let_def io_defs split: prod.splits sum.splits)

text \<open>
  C5 says that the program ends with a non-zero exit status in every failure case, also
  when the two credentials come neither from the environment nor from the arguments.
  In that case \<^verbatim>\<open>main\<close> logs the usage message and returns, so the process ends with
  status 0, in any world and without a single call. (The other failure path, a run that
  reports failure, calls \<^verbatim>\<open>sys.exit(1)\<close>.)
\<close>

theorem main_exits_zero_without_credentials:
  "main n pg Map.empty [''auto_checkin.py''] w = (Some 0, [], w)"
  by (simp add: main_def credentials_def getenv_def)

lemma main_exit_status:
  "fst (main n pg environ argv w) =
     (case credentials environ argv of
        None \<Rightarrow> Some 0
      | Some (u, p) \<Rightarrow>
          (case fst (run n pg (init_account u p (environ ''GITHUB_ACTIONS'' = Some ''true'')) w) of
             None \<Rightarrow> None
           | Some True \<Rightarrow> Some 0
           | Some False \<Rightarrow> Some 1))"
  by (simp add: main_def Let_def split: option.splits prod.splits bool.splits)

lemma main_failure_exit_status:
  "fst (main 1 offline [''CHECKIN_USERNAME'' \<mapsto> ''user'', ''CHECKIN_PASSWORD'' \<mapsto> ''secret'']
          [''auto_checkin.py''] 0) = Some 1"
  by (simp add: main_exit_status credentials_def getenv_def run_def startup_def shutdown_def
      io_defs offline_def)

section \<open>Claims about do\_checkin\<close>

lemma click_submit_result:
  "fst (click_submit pg b w) =
     (case fst (click pg b (snd (screenshot pg ''page_before_submit.png'' w))) of
        Inl e \<Rightarrow> Inl e | Inr u \<Rightarrow> Inr True)"
  by (simp add: click_submit_def io_defs split: prod.splits sum.splits)

lemma no_submit_result: "fst (no_submit pg w) = Inr False"
  by (simp add: no_submit_def io_defs split: prod.splits sum.splits)

lemma do_checkin_try_unfold:
  "fst (do_checkin_try pg w) =
     (case fst (find_submit pg (world_at_step3 pg w)) of
        Some b \<Rightarrow> fst (click_submit pg b (snd (snd (find_submit pg (world_at_step3 pg w)))))
      | None \<Rightarrow> fst (no_submit pg (snd (snd (find_submit pg (world_at_step3 pg w))))))"
  by (auto simp: do_checkin_try_def world_at_step3_def Let_def seq_def total_def try_pass_def
      asleep_def read_url_def split: prod.splits sum.splits option.splits)

lemma do_checkin_result:
  "fst (do_checkin pg w) = (fst (do_checkin_try pg w) = Inr True)"
  by (auto simp: do_checkin_def try_pass_def split: prod.splits sum.splits)


lemma click_submit_clicks: "Click b \<in> set (issued (click_submit pg b w))"
  by (auto simp: click_submit_def io_defs split: prod.splits sum.splits)

lemma locate_loop_head: "\<exists>rest. issued (locate_loop pg (c # cs) sb w) = WaitFor c 3000 # rest"
  by (auto simp: prim_def split: prod.splits sum.splits option.splits)

lemma find_submit_head: "WaitFor (selectors ! 0) 3000 \<in> set (issued (find_submit pg w))"
proof -
  obtain c cs where sel: "selectors = c # cs" "selectors ! 0 = c"
    by (simp add: selectors_def)
  obtain rest where r: "issued (locate_loop pg (c # cs) None w) = WaitFor c 3000 # rest"
    using locate_loop_head [of pg c cs None w] by auto
  obtain sb evs w1 where ll: "locate_loop pg (c # cs) None w = (sb, evs, w1)" by (metis prod_cases3)
  with r have "WaitFor c 3000 \<in> set evs" by simp
  with ll sel show ?thesis
    by (cases sb) (auto simp: find_submit_def prim_def split: prod.splits sum.splits)
qed

lemma do_checkin_issued:
  "set (issued (find_submit pg (world_at_step3 pg w))) \<subseteq> set (issued (do_checkin pg w))
   \<and> (\<forall>b. fst (find_submit pg (world_at_step3 pg w)) = Some b \<longrightarrow>
         set (issued (click_submit pg b (snd (snd (find_submit pg (world_at_step3 pg w))))))
           \<subseteq> set (issued (do_checkin pg w)))"
proof -
  obtain r1 e1 w1 where s1: "try_pass (prim (Screenshot ''page_after_login.png'')
      (screenshot pg ''page_after_login.png'')) (sleep pg 3 w) = (r1, e1, w1)" by (metis prod_cases3)
  obtain f2 e2 w2 where s2: "nav_step pg w1 = (f2, e2, w2)" by (metis prod_cases3)
  obtain f3 e3 w3 where s3: "expand_step pg w2 = (f3, e3, w3)" by (metis prod_cases3)
  obtain sb e4 w4 where s4: "find_submit pg w3 = (sb, e4, w4)" by (metis prod_cases3)
  have r1: "r1 = Inr ()" using s1 by (auto simp: try_pass_def split: prod.splits)
  have w3: "world_at_step3 pg w = w3" using s1 s2 s3 by (simp add: world_at_step3_def)
  show ?thesis
  proof (cases sb)
    case None
    obtain r5 e5 w5 where s5: "no_submit pg w4 = (r5, e5, w5)" by (metis prod_cases3)
    have "do_checkin_try pg w = (r5, Sleep 3 # e1 @ ReadUrl (url pg w1) # e2 @ e3 @ e4 @ e5, w5)"
      using s1 r1 s2 s3 s4 None s5
      by (simp add: do_checkin_try_def seq_def total_def asleep_def read_url_def)
    then show ?thesis using w3 s4 None
      by (auto simp: do_checkin_def split: sum.splits prod.splits)
  next
    case (Some b)
    obtain r5 e5 w5 where s5: "click_submit pg b w4 = (r5, e5, w5)" by (metis prod_cases3)
    have "do_checkin_try pg w = (r5, Sleep 3 # e1 @ ReadUrl (url pg w1) # e2 @ e3 @ e4 @ e5, w5)"
      using s1 r1 s2 s3 s4 Some s5
      by (simp add: do_checkin_try_def seq_def total_def asleep_def read_url_def)
    then show ?thesis using w3 s4 Some s5
      by (auto simp: do_checkin_def split: sum.splits prod.splits)
  qed
qed

text \<open>
  C4, as stated, says that \<^verbatim>\<open>do_checkin\<close> returns success exactly when a submit control was
  located and a click on it was issued. The click may raise, and then the handler of the
  outer \<^verbatim>\<open>try\<close> returns False. On this page steps 1 and 2 time out (they click nothing), the
  submit control is element 7 and every click raises: the control is located, the click on
  it is issued, and the result is False.
\<close>

theorem do_checkin_fails_when_submit_click_raises:
  "fst (find_submit ((online zh_submit_checkin)
          \<lparr>wait_for_selector := \<lambda>s t w. if t = 10000 then (Inl TimeoutError, w) else (Inr (Some 7), w),
           click := \<lambda>e w. (Inl TimeoutError, w)\<rparr>)
        (world_at_step3 ((online zh_submit_checkin)
          \<lparr>wait_for_selector := \<lambda>s t w. if t = 10000 then (Inl TimeoutError, w) else (Inr (Some 7), w),
           click := \<lambda>e w. (Inl TimeoutError, w)\<rparr>) 0)) = Some 7
   \<and> Click 7 \<in> set (issued (do_checkin ((online zh_submit_checkin)
          \<lparr>wait_for_selector := \<lambda>s t w. if t = 10000 then (Inl TimeoutError, w) else (Inr (Some 7), w),
           click := \<lambda>e w. (Inl TimeoutError, w)\<rparr>) 0))
   \<and> \<not> fst (do_checkin ((online zh_submit_checkin)
          \<lparr>wait_for_selector := \<lambda>s t w. if t = 10000 then (Inl TimeoutError, w) else (Inr (Some 7), w),
           click := \<lambda>e w. (Inl TimeoutError, w)\<rparr>) 0)"
  by (simp add: do_checkin_def do_checkin_try_def world_at_step3_def nav_step_def nav_first_def
      nav_second_def expand_step_def expand_try_def find_submit_def click_submit_def selectors_def
      io_defs online_def)

text \<open>
  C4, amended. \<^verbatim>\<open>do_checkin\<close> returns True exactly when step 3 located a submit control and
  the click on it returned without raising; when it returns True that click is among the
  calls issued. Steps 1 and 2 have no say: whatever they did, and whether they clicked or
  not, step 3 is reached (its first selector is always waited for) and the result is decided
  there.
\<close>

theorem do_checkin_succeeds_iff_submit_clicked:
  "(fst (do_checkin pg w) \<longleftrightarrow>
      (\<exists>b. fst (find_submit pg (world_at_step3 pg w)) = Some b
         \<and> fst (click pg b (snd (screenshot pg ''page_before_submit.png''
                  (snd (snd (find_submit pg (world_at_step3 pg w))))))) = Inr ()))
   \<and> (fst (do_checkin pg w) \<longrightarrow>
        (\<exists>b. fst (find_submit pg (world_at_step3 pg w)) = Some b
           \<and> Click b \<in> set (issued (do_checkin pg w))))
   \<and> WaitFor (selectors ! 0) 3000 \<in> set (issued (do_checkin pg w))"
proof -
  have a: "fst (do_checkin pg w) \<longleftrightarrow>
      (\<exists>b. fst (find_submit pg (world_at_step3 pg w)) = Some b
         \<and> fst (click pg b (snd (screenshot pg ''page_before_submit.png''
                  (snd (snd (find_submit pg (world_at_step3 pg w))))))) = Inr ())"
    by (auto simp: do_checkin_result do_checkin_try_unfold click_submit_result no_submit_result
        split: option.splits sum.splits)
  have b: "\<exists>b. fst (find_submit pg (world_at_step3 pg w)) = Some b
           \<and> Click b \<in> set (issued (do_checkin pg w))" if "fst (do_checkin pg w)"
  proof -
    from that a obtain b where b: "fst (find_submit pg (world_at_step3 pg w)) = Some b" by blast
    with do_checkin_issued [of pg w] click_submit_clicks [of b pg] show ?thesis by blast
  qed
  have c: "WaitFor (selectors ! 0) 3000 \<in> set (issued (do_checkin pg w))"
    using do_checkin_issued [of pg w] find_submit_head [of pg "world_at_step3 pg w"] by blast
  from a b c show ?thesis by blast
qed

text \<open>The amended C4 on a page where step 1 and step 2 both fail (their waits time out, the list of
  navigation items cannot be read) and the submit button is there: \<^verbatim>\<open>do_checkin\<close> returns
  True and has clicked it. On the offline browser it returns False.\<close>

theorem do_checkin_succeeds_iff_submit_clicked_witness:
  "fst (nav_step ((online zh_submit_checkin)
          \<lparr>wait_for_selector := \<lambda>s t w. if t = 10000 then (Inl TimeoutError, w) else (Inr (Some 7), w),
           query_selector_all := \<lambda>s w. (Inl PlaywrightError, w)\<rparr>) 0) = False
   \<and> fst (expand_step ((online zh_submit_checkin)
          \<lparr>wait_for_selector := \<lambda>s t w. if t = 10000 then (Inl TimeoutError, w) else (Inr (Some 7), w),
           query_selector_all := \<lambda>s w. (Inl PlaywrightError, w)\<rparr>) 0) = False
   \<and> fst (do_checkin ((online zh_submit_checkin)
          \<lparr>wait_for_selector := \<lambda>s t w. if t = 10000 then (Inl TimeoutError, w) else (Inr (Some 7), w),
           query_selector_all := \<lambda>s w. (Inl PlaywrightError, w)\<rparr>) 0)
   \<and> Click 7 \<in> set (issued (do_checkin ((online zh_submit_checkin)
          \<lparr>wait_for_selector := \<lambda>s t w. if t = 10000 then (Inl TimeoutError, w) else (Inr (Some 7), w),
           query_selector_all := \<lambda>s w. (Inl PlaywrightError, w)\<rparr>) 0))
   \<and> \<not> fst (do_checkin offline 0)"
proof -
  let ?pg = "(online zh_submit_checkin)
          \<lparr>wait_for_selector := \<lambda>s t w. if t = 10000 then (Inl TimeoutError, w) else (Inr (Some 7), w),
           query_selector_all := \<lambda>s w. (Inl PlaywrightError, w)\<rparr>"
  have n: "fst (nav_step ?pg 0) = False"
    by (simp add: nav_step_def nav_first_def nav_second_def io_defs online_def)
  have e: "fst (expand_step ?pg 0) = False"
    by (simp add: expand_step_def expand_try_def io_defs online_def)
  have w3: "world_at_step3 ?pg 0 = 0"
    by (simp add: world_at_step3_def nav_step_def nav_first_def nav_second_def expand_step_def
        expand_try_def io_defs online_def)
  have f: "find_submit ?pg 0 = (Some 7, [WaitFor (selectors ! 0) 3000, InnerText 7], 0)"
    by (simp add: find_submit_def selectors_def io_defs online_def)
  have c: "fst (click ?pg 7 (snd (screenshot ?pg ''page_before_submit.png'' 0))) = Inr ()"
    by (simp add: online_def)
  have o3: "world_at_step3 offline 0 = 0"
    by (simp add: world_at_step3_def nav_step_def nav_first_def nav_second_def expand_step_def
        expand_try_def io_defs offline_def)
  have fo: "fst (find_submit offline 0) = None"
    by (simp add: find_submit_def selectors_def io_defs offline_def)
  show ?thesis
    using do_checkin_succeeds_iff_submit_clicked [of ?pg 0]
      do_checkin_succeeds_iff_submit_clicked [of offline 0] n e w3 f c o3 fo
    by auto
qed

subsection \<open>The loop over the selectors\<close>

lemma locate_loop_unmatched_prefix:
  assumes "\<And>s w' b. s \<in> set pre \<Longrightarrow> fst (wait_for_selector pg s 3000 w') \<noteq> Inr (Some b)"
  shows "locate_loop pg (pre @ rest) None w =
     (case locate_loop pg rest None (fold (\<lambda>s w'. snd (wait_for_selector pg s 3000 w')) pre w) of
        (r, evs, w') \<Rightarrow> (r, map (\<lambda>s. WaitFor s 3000) pre @ evs, w'))"
  using assms
proof (induction pre arbitrary: w)
  case Nil
  show ?case by (simp split: prod.splits)
next
  case (Cons s pre)
  obtain r w1 where ws: "wait_for_selector pg s 3000 w = (r, w1)" by (metis prod.collapse)
  have nb: "\<And>b. r \<noteq> Inr (Some b)" using Cons.prems [of s w] ws by simp
  have ih: "locate_loop pg (pre @ rest) None w1 =
     (case locate_loop pg rest None (fold (\<lambda>s w'. snd (wait_for_selector pg s 3000 w')) pre w1) of
        (r, evs, w') \<Rightarrow> (r, map (\<lambda>s. WaitFor s 3000) pre @ evs, w'))"
    by (rule Cons.IH) (use Cons.prems in auto)
  show ?case
  proof (cases r)
    case (Inl e)
    with ws ih show ?thesis by (simp add: prim_def split: prod.splits)
  next
    case (Inr x)
    with nb have "x = None" by (cases x) auto
    with Inr ws ih show ?thesis by (simp add: prim_def split: prod.splits)
  qed
qed

lemma locate_loop_readable_match:
  "wait_for_selector pg c 3000 w = (Inr (Some b), w1) \<Longrightarrow> inner_text pg b w1 = (Inr t, w2) \<Longrightarrow>
     locate_loop pg (c # rest) sb w = (Some b, [WaitFor c 3000, InnerText b], w2)"
  by (simp add: prim_def)

text \<open>The part of C2 that holds: the first candidate that matches an element whose text can
  be read is the result, and no later candidate is waited for; when no candidate matches
  the result is None.\<close>

lemma locate_first_readable_match:
  assumes "\<And>s w' b. s \<in> set pre \<Longrightarrow> fst (wait_for_selector pg s 3000 w') \<noteq> Inr (Some b)"
    and "wait_for_selector pg c 3000 (fold (\<lambda>s w'. snd (wait_for_selector pg s 3000 w')) pre w)
           = (Inr (Some b), w1)"
    and "inner_text pg b w1 = (Inr t, w2)"
  shows "locate_loop pg (pre @ c # rest) None w =
     (Some b, map (\<lambda>s. WaitFor s 3000) pre @ [WaitFor c 3000, InnerText b], w2)"
  using locate_loop_unmatched_prefix [of pre pg "c # rest" w, OF assms(1)]
    locate_loop_readable_match [OF assms(2,3), of rest None]
  by simp

lemma locate_exhausted:
  assumes "\<And>s w' b. s \<in> set cs \<Longrightarrow> fst (wait_for_selector pg s 3000 w') \<noteq> Inr (Some b)"
  shows "fst (locate_loop pg cs None w) = None
     \<and> issued (locate_loop pg cs None w) = map (\<lambda>s. WaitFor s 3000) cs"
  using locate_loop_unmatched_prefix [of cs pg "[]" w, OF assms] by simp

text \<open>
  C2 says that when candidate N is the first to match, the loop returns its element and
  does not evaluate candidate N+1. The loop reads the inner text of the element (for the log
  line) inside the same \<^verbatim>\<open>try\<close>, before the \<^verbatim>\<open>break\<close>: when that read raises, the bare
  \<^verbatim>\<open>except: continue\<close> goes on to candidate N+1. On this page every wait finds a new element
  and the text of element 0 cannot be read: the first candidate matches element 0, yet the
  second candidate is waited for and its element 1 is the result.
\<close>

theorem locate_goes_on_after_unreadable_match:
  "wait_for_selector ((online ''x'')
       \<lparr>wait_for_selector := \<lambda>s t w. (Inr (Some w), Suc w),
        inner_text := \<lambda>e w. if e = 0 then (Inl PlaywrightError, w) else (Inr ''x'', w)\<rparr>)
     (selectors ! 0) 3000 0 = (Inr (Some 0), 1)
   \<and> locate_loop ((online ''x'')
       \<lparr>wait_for_selector := \<lambda>s t w. (Inr (Some w), Suc w),
        inner_text := \<lambda>e w. if e = 0 then (Inl PlaywrightError, w) else (Inr ''x'', w)\<rparr>)
     selectors None 0
     = (Some 1, [WaitFor (selectors ! 0) 3000, InnerText 0, WaitFor (selectors ! 1) 3000, InnerText 1], 2)"
  by (simp add: selectors_def prim_def online_def)

text \<open>When no later candidate matches, the element whose text could not be read is still
  the result, after all seven candidates were waited for.\<close>

lemma locate_keeps_unreadable_match:
  "locate_loop ((online ''x'')
       \<lparr>wait_for_selector := \<lambda>s t w. if w = 0 then (Inr (Some 5), Suc w) else (Inl TimeoutError, Suc w),
        inner_text := \<lambda>e w. (Inl PlaywrightError, w)\<rparr>)
     selectors None 0
     = (Some 5, WaitFor (selectors ! 0) 3000 # InnerText 5 # map (\<lambda>s. WaitFor s 3000) (tl selectors), 7)"
  by (simp add: selectors_def prim_def online_def)

subsection \<open>The scan of all buttons\<close>

lemma startswith_iff: "startswith s p \<longleftrightarrow> (\<exists>c. s = p @ c)"
  unfolding startswith_def
  by (metis append_eq_conv_conj append_take_drop_id)

lemma str_in_iff: "str_in p s \<longleftrightarrow> (\<exists>a c. s = a @ p @ c)"
proof (induction s)
  case Nil
  show ?case by auto
next
  case (Cons x xs)
  show ?case
  proof
    assume "str_in p (x # xs)"
    then consider "startswith (x # xs) p" | "str_in p xs" by auto
    then show "\<exists>a c. x # xs = a @ p @ c"
    proof cases
      case 1
      then obtain c where "x # xs = p @ c" using startswith_iff by blast
      then have "x # xs = [] @ p @ c" by simp
      then show ?thesis by blast
    next
      case 2
      with Cons.IH obtain a c where "xs = a @ p @ c" by blast
      then have "x # xs = (x # a) @ p @ c" by simp
      then show ?thesis by blast
    qed
  next
    assume "\<exists>a c. x # xs = a @ p @ c"
    then obtain a c where e: "x # xs = a @ p @ c" by blast
    show "str_in p (x # xs)"
    proof (cases a)
      case Nil
      with e have "startswith (x # xs) p" using startswith_iff by auto
      then show ?thesis by simp
    next
      case (Cons y a')
      with e have "xs = a' @ p @ c" by simp
      with Cons.IH have "str_in p xs" by blast
      then show ?thesis by simp
    qed
  qed
qed

lemma scan_buttons_stable:
  assumes "\<And>b w'. inner_text pg b w' = (text_of b, w')"
    and "\<And>b w'. get_attribute pg b ''class'' w' = (class_of b, w')"
  shows "fst (scan_buttons pg btns w) = find (\<lambda>b. scan_accepts (text_of b) (class_of b)) btns
     \<and> snd (snd (scan_buttons pg btns w)) = w"
proof (induction btns)
  case Nil
  show ?case by simp
next
  case (Cons b btns)
  obtain r evs w1 where rest: "scan_buttons pg btns w = (r, evs, w1)" by (metis prod_cases3)
  with Cons have ih: "r = find (\<lambda>b. scan_accepts (text_of b) (class_of b)) btns" "w1 = w" by simp_all
  show ?case
  proof (cases "text_of b")
    case (Inl e)
    with rest ih show ?thesis by (simp add: seq_def prim_def assms scan_accepts_def)
  next
    case t: (Inr tx)
    show ?thesis
    proof (cases "class_of b")
      case (Inl e)
      with t rest ih show ?thesis by (simp add: seq_def prim_def assms scan_accepts_def)
    next
      case (Inr classes)
      with t rest ih show ?thesis
        by (cases "str_in zh_submit_checkin tx")
          (simp_all add: seq_def prim_def ret_def assms scan_accepts_def)
    qed
  qed
qed

text \<open>
  C6, as stated, says that the scan selects a button exactly when its inner text equals the
  label. The test of the source is \<^verbatim>\<open>'...' in text\<close>, containment. On this page the seven
  selectors all time out and the first button reads as the label followed by an exclamation
  mark: the scan selects it, though its text is not the label.
\<close>

theorem button_scan_accepts_longer_text:
  "fst (locate_loop ((online (zh_submit_checkin @ ''!''))
          \<lparr>wait_for_selector := \<lambda>s t w. (Inl TimeoutError, w)\<rparr>) selectors None 0) = None
   \<and> fst (find_submit ((online (zh_submit_checkin @ ''!''))
          \<lparr>wait_for_selector := \<lambda>s t w. (Inl TimeoutError, w)\<rparr>) 0) = Some 0
   \<and> inner_text ((online (zh_submit_checkin @ ''!''))
          \<lparr>wait_for_selector := \<lambda>s t w. (Inl TimeoutError, w)\<rparr>) 0 0
       = (Inr (zh_submit_checkin @ ''!''), 0)
   \<and> zh_submit_checkin @ ''!'' \<noteq> zh_submit_checkin"
  by (simp add: find_submit_def selectors_def io_defs online_def startswith_def zh_submit_checkin_def)

text \<open>
  C6, amended. On a page where reading the text and the class of a button always gives the
  same answer and changes nothing, and where the chain of 7 selectors was exhausted without a
  match and the list of buttons could be read: the scan selects the first button of the list
  whose text and class could both be read and whose text contains the label as a substring,
  and no button when there is none.
\<close>

theorem button_scan_selects_first_containing_label:
  assumes "\<And>b w'. inner_text pg b w' = (text_of b, w')"
    and "\<And>b w'. get_attribute pg b ''class'' w' = (class_of b, w')"
    and "locate_loop pg selectors None w = (None, evs, w1)"
    and "query_selector_all pg ''button'' w1 = (Inr all_buttons, w2)"
  shows "fst (find_submit pg w) = find (\<lambda>b. scan_accepts (text_of b) (class_of b)) all_buttons
     \<and> (\<forall>t c. scan_accepts (Inr t) (Inr c) \<longleftrightarrow> (\<exists>x y. t = x @ zh_submit_checkin @ y))
     \<and> (\<forall>e c. \<not> scan_accepts (Inl e) c) \<and> (\<forall>t e. \<not> scan_accepts t (Inl e))
     \<and> length selectors = 7"
proof -
  have a: "fst (find_submit pg w) = find (\<lambda>b. scan_accepts (text_of b) (class_of b)) all_buttons"
    using assms(3,4) scan_buttons_stable [of pg text_of class_of all_buttons w2, OF assms(1,2)]
    by (auto simp: find_submit_def prim_def split: prod.splits)
  have b: "\<forall>t c. scan_accepts (Inr t) (Inr c) \<longleftrightarrow> (\<exists>x y. t = x @ zh_submit_checkin @ y)"
    by (simp add: scan_accepts_def str_in_iff)
  have c: "(\<forall>e c. \<not> scan_accepts (Inl e) c) \<and> (\<forall>t e. \<not> scan_accepts t (Inl e))"
    by (simp add: scan_accepts_def split: sum.splits)
  have d: "length selectors = 7" by (simp add: selectors_def)
  from a b c d show ?thesis by blast
qed

text \<open>The amended C6 on a page with three buttons: Cancel, one whose text contains the
  label between other words, and one whose text is the label. The second is selected.\<close>

theorem button_scan_selects_first_containing_label_witness:
  "fst (find_submit ((online ''x'')
          \<lparr>wait_for_selector := \<lambda>s t w. (Inl TimeoutError, w),
           query_selector_all := \<lambda>s w. (Inr [0, 1, 2], w),
           inner_text := \<lambda>e w. (if e = 0 then Inr ''Cancel''
                                else if e = 1 then Inr (''  '' @ zh_submit_checkin @ '' now'')
                                else Inr zh_submit_checkin, w)\<rparr>) 0) = Some 1"
proof -
  let ?pg = "(online ''x'')
          \<lparr>wait_for_selector := \<lambda>s t w. (Inl TimeoutError, w),
           query_selector_all := \<lambda>s w. (Inr [0, 1, 2], w),
           inner_text := \<lambda>e w. (if e = 0 then Inr ''Cancel''
                                else if e = 1 then Inr (''  '' @ zh_submit_checkin @ '' now'')
                                else Inr zh_submit_checkin, w)\<rparr>"
  let ?tx = "\<lambda>e::nat. if e = 0 then Inr ''Cancel''
                 else if e = 1 then Inr (''  '' @ zh_submit_checkin @ '' now'')
                 else (Inr zh_submit_checkin :: error + string)"
  let ?cl = "\<lambda>e::nat. (Inr (Some ''data:image/png;base64,QUIxMg=='') :: error + string option)"
  have h1: "\<And>b w'. inner_text ?pg b w' = (?tx b, w')" by simp
  have h2: "\<And>b w'. get_attribute ?pg b ''class'' w' = (?cl b, w')" by (simp add: online_def)
  have h3: "locate_loop ?pg selectors None 0 = (None, map (\<lambda>s. WaitFor s 3000) selectors, 0)"
    by (simp add: selectors_def prim_def)
  have h4: "query_selector_all ?pg ''button'' 0 = (Inr [0, 1, 2], 0)" by simp
  have f: "find (\<lambda>b. scan_accepts (?tx b) (?cl b)) [0, 1, 2] = Some 1"
    by (simp add: scan_accepts_def startswith_def zh_submit_checkin_def)
  from button_scan_selects_first_containing_label [of ?pg ?tx ?cl 0, OF h1 h2 h3 h4] f
  show ?thesis by simp
qed

end
